theory Spec2Isabelle
  imports Main "HOL-Library.Sublist"
begin

section \<open>Python values used by check\_mobileprovisions.py\<close>

text \<open>
  The script is a sequence of effects on the file system and on standard output. The
  model passes the state explicitly (record \<open>world\<close>), returns every exception as a
  value (\<open>Inl\<close>), and takes what the script cannot decide by itself (the external
  \<^verbatim>\<open>security\<close> process, the clock read at import time, the directory walk) from a
  record \<open>env\<close>.
\<close>

subsection \<open>Exceptions\<close>

text \<open>
  Every exception class listed here derives from Python's \<^verbatim>\<open>Exception\<close>, so an
  \<^verbatim>\<open>except Exception\<close> clause catches each of them. None of them is
  \<^verbatim>\<open>subprocess.CalledProcessError\<close>, which is modelled by a non-zero exit status
  (see \<open>run_outcome\<close>). The message of an operating system error is kept up to the
  path it names.
\<close>

datatype exn_kind =
    FileNotFoundError | IsADirectoryError | NotADirectoryError | FileExistsError
  | PermissionError | OSError | InvalidFileException | AttributeError | TypeError
  | ValueError | BadZipFile | RuntimeError | NotImplementedError | ShutilError
  | UnicodeDecodeError

datatype exn = Exn (kind: exn_kind) (message: string)

text \<open>\<^verbatim>\<open>str(e)\<close>\<close>

definition str_exn :: "exn \<Rightarrow> string" where
  "str_exn e = message e"

subsection \<open>Integers and dates as text\<close>

text \<open>\<^verbatim>\<open>str(n)\<close> for a non-negative integer: decimal digits, no padding.\<close>

definition digit :: "nat \<Rightarrow> char" where
  "digit n = ''0123456789'' ! (n mod 10)"

function str_nat :: "nat \<Rightarrow> string" where
  "str_nat n = (if n < 10 then [digit n] else str_nat (n div 10) @ [digit n])"
  by pat_completeness auto
termination
  by (relation "measure id") auto

declare str_nat.simps [simp del]

text \<open>\<^verbatim>\<open>"%0wd" % n\<close>: zero padded on the left to width \<open>w\<close>.\<close>

definition zpad :: "nat \<Rightarrow> nat \<Rightarrow> string" where
  "zpad w n = replicate (w - length (str_nat n)) CHR ''0'' @ str_nat n"

text \<open>
  A naive \<^verbatim>\<open>datetime.datetime\<close> (no time zone), as \<^verbatim>\<open>plistlib\<close> returns for a
  date and as \<^verbatim>\<open>datetime.now()\<close> returns.
\<close>

datatype datetime =
  Datetime (year: nat) (month: nat) (day: nat) (hour: nat) (minute: nat) (second: nat)
    (microsecond: nat)

text \<open>Python compares two naive datetimes as the tuples of their fields.\<close>

fun tuple_less :: "nat list \<Rightarrow> nat list \<Rightarrow> bool" where
  "tuple_less [] [] = False"
| "tuple_less [] (y # ys) = True"
| "tuple_less (x # xs) [] = False"
| "tuple_less (x # xs) (y # ys) = (x < y \<or> (x = y \<and> tuple_less xs ys))"

definition date_fields :: "datetime \<Rightarrow> nat list" where
  "date_fields d = [year d, month d, day d, hour d, minute d, second d, microsecond d]"

definition datetime_less :: "datetime \<Rightarrow> datetime \<Rightarrow> bool" where
  "datetime_less a b = tuple_less (date_fields a) (date_fields b)"

text \<open>
  \<^verbatim>\<open>str(d)\<close> is \<^verbatim>\<open>d.isoformat(sep=' ')\<close>: \<^verbatim>\<open>YYYY-MM-DD HH:MM:SS\<close>, followed by
  \<^verbatim>\<open>.ffffff\<close> when the microsecond field is not zero.
\<close>

definition str_datetime :: "datetime \<Rightarrow> string" where
  "str_datetime d =
     zpad 4 (year d) @ ''-'' @ zpad 2 (month d) @ ''-'' @ zpad 2 (day d) @ '' '' @
     zpad 2 (hour d) @ '':'' @ zpad 2 (minute d) @ '':'' @ zpad 2 (second d) @
     (if microsecond d = 0 then '''' else ''.'' @ zpad 6 (microsecond d))"

subsection \<open>Property list values\<close>

text \<open>
  What \<^verbatim>\<open>plistlib.load\<close> can return. A dictionary is an association list read by
  \<open>map_of\<close>; a float is kept as mantissa and binary exponent (only whether it is zero
  matters here).
\<close>

datatype pvalue =
    PDate datetime
  | PString string
  | PInt int
  | PReal int int
  | PBool bool
  | PData string
  | PArray "pvalue list"
  | PDict "(string \<times> pvalue) list"

text \<open>\<^verbatim>\<open>type(v).__name__\<close>, as it appears in Python's error messages.\<close>

fun type_name :: "pvalue \<Rightarrow> string" where
  "type_name (PDate _) = ''datetime.datetime''"
| "type_name (PString _) = ''str''"
| "type_name (PInt _) = ''int''"
| "type_name (PReal _ _) = ''float''"
| "type_name (PBool _) = ''bool''"
| "type_name (PData _) = ''bytes''"
| "type_name (PArray _) = ''list''"
| "type_name (PDict _) = ''dict''"

text \<open>
  \<^verbatim>\<open>plist_data.get(key)\<close>: the value or \<^verbatim>\<open>None\<close> on a dictionary; any other
  top-level value has no method \<^verbatim>\<open>get\<close>.
\<close>

fun py_get :: "pvalue \<Rightarrow> string \<Rightarrow> exn + pvalue option" where
  "py_get (PDict kvs) k = Inr (map_of kvs k)"
| "py_get v k =
     Inl (Exn AttributeError
       ([CHR 0x27] @ type_name v @ [CHR 0x27] @ '' object has no attribute ''
          @ [CHR 0x27] @ ''get'' @ [CHR 0x27]))"

text \<open>
  Truth value, as \<^verbatim>\<open>not expiration_date\<close> reads it: zero and every empty container
  are false; a datetime is always true. (\<^verbatim>\<open>None\<close>, the result of \<^verbatim>\<open>get\<close> for a
  missing key, is false; see \<open>read_verdict\<close>.)
\<close>

fun truthy :: "pvalue \<Rightarrow> bool" where
  "truthy (PDate _) = True"
| "truthy (PString s) = (s \<noteq> [])"
| "truthy (PInt i) = (i \<noteq> 0)"
| "truthy (PReal m e) = (m \<noteq> 0)"
| "truthy (PBool b) = b"
| "truthy (PData s) = (s \<noteq> [])"
| "truthy (PArray xs) = (xs \<noteq> [])"
| "truthy (PDict kvs) = (kvs \<noteq> [])"

text \<open>
  The \<^verbatim>\<open>TypeError\<close> of \<^verbatim>\<open>v < CURRENT_DATE\<close> for a left operand that is not a
  datetime.
\<close>

definition not_comparable :: "pvalue \<Rightarrow> exn" where
  "not_comparable v =
     Exn TypeError
       ([CHR 0x27] @ ''<'' @ [CHR 0x27] @ '' not supported between instances of ''
          @ [CHR 0x27] @ type_name v @ [CHR 0x27] @ '' and ''
          @ [CHR 0x27] @ ''datetime.datetime'' @ [CHR 0x27])"

subsection \<open>Strings and paths\<close>

text \<open>\<^verbatim>\<open>s.endswith(suffix)\<close>\<close>

definition endswith :: "string \<Rightarrow> string \<Rightarrow> bool" where
  "endswith s suf = (length suf \<le> length s \<and> drop (length s - length suf) s = suf)"

text \<open>\<^verbatim>\<open>os.path.basename\<close> (POSIX): what follows the last slash.\<close>

definition basename :: "string \<Rightarrow> string" where
  "basename p = rev (takeWhile (\<lambda>c. c \<noteq> CHR ''/'') (rev p))"

text \<open>\<^verbatim>\<open>os.path.join(a, b)\<close> (POSIX, two arguments).\<close>

definition join :: "string \<Rightarrow> string \<Rightarrow> string" where
  "join a b =
     (if b \<noteq> [] \<and> hd b = CHR ''/'' then b
      else if a = [] \<or> last a = CHR ''/'' then a @ b
      else a @ ''/'' @ b)"

text \<open>\<^verbatim>\<open>s.split(sep)\<close> for a one-character separator.\<close>

fun split_on :: "char \<Rightarrow> string \<Rightarrow> string list" where
  "split_on c [] = [[]]"
| "split_on c (x # xs) =
     (if x = c then [] # split_on c xs
      else (case split_on c xs of [] \<Rightarrow> [[x]] | y # ys \<Rightarrow> (x # y) # ys))"


section \<open>The file system\<close>

text \<open>
  File contents are kept by what the script's readers make of them: a property list
  (what \<^verbatim>\<open>plistlib.load\<close> parses), a zip container with its members in the order of
  \<^verbatim>\<open>namelist()\<close>, or other bytes. A member of a container either yields its data or
  cannot be opened for reading (an encrypted member, an unsupported compression
  method), in which case \<^verbatim>\<open>ZipFile.extract\<close> raises.
\<close>

datatype fdata =
    Plist pvalue
  | Zip "(string \<times> (exn + fdata)) list"
  | Blob string

text \<open>
  The file system is a tree from the root directory; a key is the list of the names
  from the root to a node. Symbolic links, permissions and devices are not modelled.
\<close>

datatype node = File fdata | Dir "string \<Rightarrow> node option"

type_synonym key = "string list"

fun lookup :: "node \<Rightarrow> key \<Rightarrow> node option" where
  "lookup n [] = Some n"
| "lookup n (c # cs) =
     (case n of
        File _ \<Rightarrow> None
      | Dir d \<Rightarrow> (case d c of None \<Rightarrow> None | Some n' \<Rightarrow> lookup n' cs))"

text \<open>
  \<open>put k v t\<close> sets (\<open>Some\<close>) or deletes (\<open>None\<close>) the entry \<open>k\<close> in the directory
  that holds it; without that directory nothing changes (the callers test for it).
\<close>

fun put :: "key \<Rightarrow> node option \<Rightarrow> node \<Rightarrow> node" where
  "put [] v n = n"
| "put [c] v n = (case n of File x \<Rightarrow> File x | Dir d \<Rightarrow> Dir (d(c := v)))"
| "put (c # c' # cs) v n =
     (case n of
        File x \<Rightarrow> File x
      | Dir d \<Rightarrow> (case d c of None \<Rightarrow> Dir d | Some n' \<Rightarrow> Dir (d(c \<mapsto> put (c' # cs) v n'))))"

definition is_file :: "node \<Rightarrow> key \<Rightarrow> bool" where
  "is_file t k = (case lookup t k of Some (File _) \<Rightarrow> True | _ \<Rightarrow> False)"

definition is_dir :: "node \<Rightarrow> key \<Rightarrow> bool" where
  "is_dir t k = (case lookup t k of Some (Dir _) \<Rightarrow> True | _ \<Rightarrow> False)"

text \<open>
  How the operating system reads a path string (POSIX, lexically): an absolute path
  starts at the root, a relative one at the working directory; empty components and
  \<^verbatim>\<open>.\<close> are skipped and \<^verbatim>\<open>..\<close> steps to the parent (the root is its own parent).
\<close>

definition step :: "string \<Rightarrow> key \<Rightarrow> key" where
  "step c acc =
     (if c = [] \<or> c = ''.'' then acc else if c = ''..'' then butlast acc else acc @ [c])"

definition resolve :: "key \<Rightarrow> string \<Rightarrow> key" where
  "resolve cwd p =
     fold step (split_on CHR ''/'' p) (if p \<noteq> [] \<and> hd p = CHR ''/'' then [] else cwd)"

section \<open>The world and its collaborators\<close>

text \<open>
  \<^verbatim>\<open>subprocess.run(..., check=True, capture_output=True, text=True)\<close> either gets an
  exit status and the text of standard error from the process (\<open>Exited\<close>; a non-zero
  status becomes \<^verbatim>\<open>CalledProcessError\<close>), or raises something else (\<open>Raised\<close>): an
  \<^verbatim>\<open>OSError\<close> such as \<^verbatim>\<open>FileNotFoundError\<close> when the program cannot be started, a
  \<^verbatim>\<open>UnicodeDecodeError\<close> when its output is not text.
\<close>

datatype run_outcome = Exited int string | Raised exn

record world =
  fs :: node
  out :: "string list"

text \<open>
  \<open>cwd\<close>: the working directory of the process. \<open>CURRENT_DATE\<close>: the module constant,
  read from the clock once when the module is loaded. \<open>subprocess_run\<close>: the external
  process, any function of its arguments and the file system. \<open>os_walk\<close>: the pairs
  (root, files) that \<^verbatim>\<open>os.walk(directory)\<close> yields during the run.
\<close>

record env =
  cwd :: key
  CURRENT_DATE :: datetime
  subprocess_run :: "string list \<Rightarrow> node \<Rightarrow> run_outcome \<times> node"
  os_walk :: "string \<Rightarrow> (string \<times> string list) list"

definition ROOT_DIR :: string where
  "ROOT_DIR = ''.''"

definition TEMP_DIR :: string where
  "TEMP_DIR = ''temp_extracted''"

text \<open>\<^verbatim>\<open>print(line)\<close>\<close>

definition print :: "string \<Rightarrow> world \<Rightarrow> world" where
  "print line w = w\<lparr>out := out w @ [line]\<rparr>"

text \<open>\<^verbatim>\<open>os.path.exists(p)\<close>\<close>

definition path_exists :: "env \<Rightarrow> string \<Rightarrow> world \<Rightarrow> bool" where
  "path_exists e p w = (lookup (fs w) (resolve (cwd e) p) \<noteq> None)"

text \<open>The text of an \<^verbatim>\<open>OSError\<close>: \<^verbatim>\<open>[Errno n] reason: 'path'\<close>.\<close>

definition os_error :: "exn_kind \<Rightarrow> string \<Rightarrow> string \<Rightarrow> exn" where
  "os_error k reason p = Exn k (reason @ '': '' @ [CHR 0x27] @ p @ [CHR 0x27])"

text \<open>
  \<^verbatim>\<open>os.remove(p)\<close>: unlinks a file; refuses a directory and a missing path. (Linux
  reports a directory as \<^verbatim>\<open>IsADirectoryError\<close>, macOS as \<^verbatim>\<open>PermissionError\<close>.)
\<close>

definition os_remove :: "env \<Rightarrow> string \<Rightarrow> world \<Rightarrow> (exn + unit) \<times> world" where
  "os_remove e p w =
     (case lookup (fs w) (resolve (cwd e) p) of
        None \<Rightarrow> (Inl (os_error FileNotFoundError ''[Errno 2] No such file or directory'' p), w)
      | Some (Dir _) \<Rightarrow> (Inl (os_error IsADirectoryError ''[Errno 21] Is a directory'' p), w)
      | Some (File _) \<Rightarrow> (Inr (), w\<lparr>fs := put (resolve (cwd e) p) None (fs w)\<rparr>))"

text \<open>
  \<^verbatim>\<open>with open(p, "rb") as f: plistlib.load(f)\<close>: the parsed document, or the
  exception of \<^verbatim>\<open>open\<close> or of the parser.
\<close>

definition plist_load :: "env \<Rightarrow> string \<Rightarrow> world \<Rightarrow> exn + pvalue" where
  "plist_load e p w =
     (case lookup (fs w) (resolve (cwd e) p) of
        None \<Rightarrow> Inl (os_error FileNotFoundError ''[Errno 2] No such file or directory'' p)
      | Some (Dir _) \<Rightarrow> Inl (os_error IsADirectoryError ''[Errno 21] Is a directory'' p)
      | Some (File (Plist v)) \<Rightarrow> Inr v
      | Some (File _) \<Rightarrow> Inl (Exn InvalidFileException ''Invalid file''))"

text \<open>\<^verbatim>\<open>zipfile.ZipFile(p, 'r')\<close>: the members of the container, or the exception.\<close>

definition zip_open :: "env \<Rightarrow> string \<Rightarrow> world \<Rightarrow> exn + (string \<times> (exn + fdata)) list" where
  "zip_open e p w =
     (case lookup (fs w) (resolve (cwd e) p) of
        None \<Rightarrow> Inl (os_error FileNotFoundError ''[Errno 2] No such file or directory'' p)
      | Some (Dir _) \<Rightarrow> Inl (os_error IsADirectoryError ''[Errno 21] Is a directory'' p)
      | Some (File (Zip ms)) \<Rightarrow> Inr ms
      | Some (File _) \<Rightarrow> Inl (Exn BadZipFile ''File is not a zip file''))"


section \<open>Library operations on the scratch directory\<close>

text \<open>
  The operations below raise the exceptions of the library, of the same class and for
  the same reason. The texts of the errors of \<^verbatim>\<open>os.mkdir\<close>, \<^verbatim>\<open>os.rename\<close> and of the
  copy that \<^verbatim>\<open>shutil.move\<close> falls back on are given without the paths that the
  library appends to them.
\<close>

text \<open>
  \<^verbatim>\<open>os.makedirs\<close>: \<open>mkdirs done rest t\<close> walks down from the directory \<open>done\<close>,
  creating each missing directory of \<open>rest\<close>. A file on the way is an error, and it
  is met before anything is created (below a missing directory nothing exists).
\<close>

fun mkdirs :: "key \<Rightarrow> string list \<Rightarrow> node \<Rightarrow> exn + node" where
  "mkdirs done [] t = Inr t"
| "mkdirs done (c # cs) t =
     (case lookup t (done @ [c]) of
        None \<Rightarrow> mkdirs (done @ [c]) cs (put (done @ [c]) (Some (Dir Map.empty)) t)
      | Some (Dir _) \<Rightarrow> mkdirs (done @ [c]) cs t
      | Some (File _) \<Rightarrow>
          Inl (if cs = [] then Exn FileExistsError ''[Errno 17] File exists''
               else Exn NotADirectoryError ''[Errno 20] Not a directory''))"

text \<open>
  \<^verbatim>\<open>os.makedirs(p)\<close> with \<^verbatim>\<open>exist_ok=False\<close>, as \<open>main\<close> calls it: an existing
  path is an error.
\<close>

definition os_makedirs :: "env \<Rightarrow> string \<Rightarrow> world \<Rightarrow> (exn + unit) \<times> world" where
  "os_makedirs e p w =
     (if lookup (fs w) (resolve (cwd e) p) \<noteq> None
      then (Inl (os_error FileExistsError ''[Errno 17] File exists'' p), w)
      else (case mkdirs [] (resolve (cwd e) p) (fs w) of
              Inl x \<Rightarrow> (Inl x, w)
            | Inr t \<Rightarrow> (Inr (), w\<lparr>fs := t\<rparr>)))"

text \<open>
  \<^verbatim>\<open>shutil.rmtree(p)\<close>: removes a directory with everything below it; a file or a
  missing path is an error.
\<close>

definition shutil_rmtree :: "env \<Rightarrow> string \<Rightarrow> world \<Rightarrow> (exn + unit) \<times> world" where
  "shutil_rmtree e p w =
     (case lookup (fs w) (resolve (cwd e) p) of
        None \<Rightarrow> (Inl (os_error FileNotFoundError ''[Errno 2] No such file or directory'' p), w)
      | Some (File _) \<Rightarrow> (Inl (os_error NotADirectoryError ''[Errno 20] Not a directory'' p), w)
      | Some (Dir _) \<Rightarrow> (Inr (), w\<lparr>fs := put (resolve (cwd e) p) None (fs w)\<rparr>))"

text \<open>
  \<^verbatim>\<open>ZipFile.extract(member, path)\<close>. The member is looked up by name (of two
  members with one name the later one). Its name is made safe: empty components,
  \<^verbatim>\<open>.\<close> and \<^verbatim>\<open>..\<close> are dropped, so an absolute name becomes relative. The
  directories above the target are created when the directory right above it does not
  exist; then the member is opened and its data written to the target. The error of
  the write names the target path, which is the normalised join of \<open>path\<close> and the safe
  name.
\<close>

text \<open>\<^verbatim>\<open>'/'.join(components)\<close>\<close>

fun sep_join :: "string list \<Rightarrow> string" where
  "sep_join [] = []"
| "sep_join [c] = c"
| "sep_join (c # c' # cs) = c @ ''/'' @ sep_join (c' # cs)"

text \<open>\<^verbatim>\<open>os.path.normpath\<close> (POSIX).\<close>

definition normpath :: "string \<Rightarrow> string" where
  "normpath p =
     (let initial_slashes =
            (if p \<noteq> [] \<and> hd p = CHR ''/''
             then (if take 2 p = ''//'' \<and> take 3 p \<noteq> ''///'' then 2 else 1)
             else (0::nat));
          new_comps =
            fold (\<lambda>comp new_comps.
                    if comp = [] \<or> comp = ''.'' then new_comps
                    else if comp \<noteq> ''..'' \<or> (initial_slashes = 0 \<and> new_comps = [])
                            \<or> (new_comps \<noteq> [] \<and> last new_comps = ''..'')
                    then new_comps @ [comp]
                    else butlast new_comps)
                 (split_on CHR ''/'' p) [];
          q = replicate initial_slashes CHR ''/'' @ sep_join new_comps
      in if q = [] then ''.'' else q)"

definition arcname :: "string \<Rightarrow> string list" where
  "arcname member =
     filter (\<lambda>c. c \<noteq> [] \<and> c \<noteq> ''.'' \<and> c \<noteq> ''..'') (split_on CHR ''/'' member)"

definition write_file :: "string \<Rightarrow> key \<Rightarrow> fdata \<Rightarrow> node \<Rightarrow> exn + node" where
  "write_file targetpath k x t =
     (case lookup t (butlast k) of
        None \<Rightarrow> Inl (os_error FileNotFoundError ''[Errno 2] No such file or directory'' targetpath)
      | Some (File _) \<Rightarrow> Inl (os_error NotADirectoryError ''[Errno 20] Not a directory'' targetpath)
      | Some (Dir _) \<Rightarrow>
          (case lookup t k of
             Some (Dir _) \<Rightarrow> Inl (os_error IsADirectoryError ''[Errno 21] Is a directory'' targetpath)
           | _ \<Rightarrow> Inr (put k (Some (File x)) t)))"

definition zip_extract ::
  "env \<Rightarrow> (string \<times> (exn + fdata)) list \<Rightarrow> string \<Rightarrow> string \<Rightarrow> world \<Rightarrow> (exn + unit) \<times> world"
where
  "zip_extract e ms member path w =
     (case map_of (rev ms) member of
        None \<Rightarrow> (Inl (Exn ValueError ''There is no item named that in the archive''), w)
      | Some content \<Rightarrow>
          if arcname member = [] then (Inl (Exn ValueError ''Empty filename.''), w)
          else
            (let targetpath = normpath (join path (sep_join (arcname member)));
                 target = resolve (cwd e) path @ arcname member;
                 upperdirs = butlast target
             in case (if lookup (fs w) upperdirs = None then mkdirs [] upperdirs (fs w)
                      else Inr (fs w)) of
                  Inl x \<Rightarrow> (Inl x, w)
                | Inr t \<Rightarrow>
                    (case content of
                       Inl x \<Rightarrow> (Inl x, w\<lparr>fs := t\<rparr>)
                     | Inr data \<Rightarrow>
                         (case write_file targetpath target data t of
                            Inl x \<Rightarrow> (Inl x, w\<lparr>fs := t\<rparr>)
                          | Inr t' \<Rightarrow> (Inr (), w\<lparr>fs := t'\<rparr>)))))"

text \<open>
  \<^verbatim>\<open>os.rename(src, dst)\<close> on keys, as \<^verbatim>\<open>shutil.move\<close> calls it: the node at \<open>src\<close>
  takes the place \<open>dst\<close>, silently replacing a file there. Errors: no source, no
  directory to hold the destination, a directory moved into itself or onto a file, a
  directory in the way (which \<^verbatim>\<open>shutil.move\<close> has excluded before the call).
\<close>

definition os_rename :: "key \<Rightarrow> key \<Rightarrow> node \<Rightarrow> exn + node" where
  "os_rename s d t =
     (case lookup t s of
        None \<Rightarrow> Inl (Exn FileNotFoundError ''[Errno 2] No such file or directory'')
      | Some n \<Rightarrow>
          if s = d then Inr t
          else if s = [] \<or> d = [] \<or> lookup t (butlast d) = None
          then Inl (Exn FileNotFoundError ''[Errno 2] No such file or directory'')
          else if is_file t (butlast d)
          then Inl (Exn NotADirectoryError ''[Errno 20] Not a directory'')
          else if take (length s) d = s then Inl (Exn OSError ''[Errno 22] Invalid argument'')
          else (case (n, lookup t d) of
                  (_, Some (Dir _)) \<Rightarrow> Inl (Exn OSError ''[Errno 66] Directory not empty'')
                | (Dir _, Some (File _)) \<Rightarrow>
                    Inl (Exn NotADirectoryError ''[Errno 20] Not a directory'')
                | _ \<Rightarrow> Inr (put d (Some n) (put s None t))))"

text \<open>
  What \<^verbatim>\<open>shutil.move\<close> does when \<^verbatim>\<open>os.rename\<close> failed. A file is copied and
  unlinked, which fails where the rename failed. A directory is copied with
  \<^verbatim>\<open>copytree\<close>, which creates the directories above the destination, and removed.
\<close>

definition move_fallback :: "key \<Rightarrow> key \<Rightarrow> exn \<Rightarrow> node \<Rightarrow> exn + node" where
  "move_fallback s d x t =
     (case lookup t s of
        Some (Dir h) \<Rightarrow>
          if take (length s) d = s
          then Inl (Exn ShutilError ''Cannot move a directory into itself'')
          else if lookup t d \<noteq> None then Inl (Exn FileExistsError ''[Errno 17] File exists'')
          else (case mkdirs [] (butlast d) t of
                  Inl y \<Rightarrow> Inl y
                | Inr t' \<Rightarrow> Inr (put d (Some (Dir h)) (put s None t')))
      | _ \<Rightarrow> Inl x)"

text \<open>\<^verbatim>\<open>path.rstrip('/')\<close>\<close>

definition rstrip_sep :: "string \<Rightarrow> string" where
  "rstrip_sep p = rev (dropWhile (\<lambda>c. c = CHR ''/'') (rev p))"

text \<open>
  \<^verbatim>\<open>shutil.move(src, dst)\<close>: when \<open>dst\<close> is an existing directory (and not the source
  itself) the source is moved into it under its own base name, unless that name is
  taken there; otherwise the source is renamed to \<open>dst\<close>.
\<close>

definition shutil_move :: "env \<Rightarrow> string \<Rightarrow> string \<Rightarrow> world \<Rightarrow> (exn + unit) \<times> world" where
  "shutil_move e src dst w =
     (let s = resolve (cwd e) src;
          into = is_dir (fs w) (resolve (cwd e) dst);
          real_dst = (if into then join dst (basename (rstrip_sep src)) else dst);
          d = resolve (cwd e) real_dst
      in if into \<and> s = resolve (cwd e) dst then (Inr (), w)
         else if into \<and> path_exists e real_dst w
         then (Inl (Exn ShutilError
                 (''Destination path '' @ [CHR 0x27] @ real_dst @ [CHR 0x27] @ '' already exists'')), w)
         else (case os_rename s d (fs w) of
                 Inr t \<Rightarrow> (Inr (), w\<lparr>fs := t\<rparr>)
               | Inl x \<Rightarrow>
                   (case move_fallback s d x (fs w) of
                      Inl y \<Rightarrow> (Inl y, w)
                    | Inr t \<Rightarrow> (Inr (), w\<lparr>fs := t\<rparr>))))"

section \<open>The script\<close>

text \<open>
  \<open>decode_mobileprovision\<close> (lines 15-27). Only \<^verbatim>\<open>CalledProcessError\<close>, the non-zero
  exit status, is caught; any other exception of \<^verbatim>\<open>subprocess.run\<close> leaves the
  function.
\<close>

definition decode_mobileprovision ::
  "env \<Rightarrow> string \<Rightarrow> string \<Rightarrow> world \<Rightarrow> (exn + bool) \<times> world"
where
  "decode_mobileprovision e file_path output_path w =
     (case subprocess_run e
             [''security'', ''cms'', ''-D'', ''-i'', file_path, ''-o'', output_path] (fs w) of
        (Raised x, t) \<Rightarrow> (Inl x, w\<lparr>fs := t\<rparr>)
      | (Exited returncode stderr, t) \<Rightarrow>
          if returncode = 0 then (Inr True, w\<lparr>fs := t\<rparr>)
          else (Inr False, print (''Error decoding '' @ file_path @ '': '' @ stderr) (w\<lparr>fs := t\<rparr>)))"

text \<open>
  The body of the \<^verbatim>\<open>try\<close> block of \<open>check_expiry\<close> (lines 40-51). A missing key
  gives \<^verbatim>\<open>None\<close>, which is false like every false value; a true value is compared
  with \<open>CURRENT_DATE\<close>, which raises unless it is a datetime.
\<close>

definition read_verdict :: "env \<Rightarrow> string \<Rightarrow> string \<Rightarrow> world \<Rightarrow> (exn + unit) \<times> world" where
  "read_verdict e file_path temp_plist w =
     (case plist_load e temp_plist w of
        Inl x \<Rightarrow> (Inl x, w)
      | Inr plist_data \<Rightarrow>
          (case py_get plist_data ''ExpirationDate'' of
             Inl x \<Rightarrow> (Inl x, w)
           | Inr None \<Rightarrow> (Inr (), print (file_path @ '': No expiration date found'') w)
           | Inr (Some expiration_date) \<Rightarrow>
               if \<not> truthy expiration_date
               then (Inr (), print (file_path @ '': No expiration date found'') w)
               else (case expiration_date of
                       PDate d \<Rightarrow>
                         (let is_expired = datetime_less d (CURRENT_DATE e);
                              status = (if is_expired then ''EXPIRED'' else ''VALID'')
                          in (Inr (), print (file_path @ '': '' @ status @ '' (Expires: ''
                                               @ str_datetime d @ '')'') w))
                     | _ \<Rightarrow> (Inl (not_comparable expiration_date), w))))"

text \<open>
  \<open>check_expiry\<close> (lines 29-59). The return after a failed decode stands before the
  \<^verbatim>\<open>try\<close> statement; the \<^verbatim>\<open>finally\<close> clause runs after the body and after the
  handler, and an exception of its \<^verbatim>\<open>os.remove\<close> leaves the function.
\<close>

definition check_expiry :: "env \<Rightarrow> string \<Rightarrow> world \<Rightarrow> (exn + unit) \<times> world" where
  "check_expiry e file_path w =
     (let temp_plist = file_path @ ''.plist'' in
      case decode_mobileprovision e file_path temp_plist w of
        (Inl x, w1) \<Rightarrow> (Inl x, w1)
      | (Inr decoded, w1) \<Rightarrow>
          if \<not> decoded then (Inr (), print (file_path @ '': Failed to decode'') w1)
          else
            (let w3 = (case read_verdict e file_path temp_plist w1 of
                         (Inl x, w2) \<Rightarrow>
                           print (file_path @ '': Error processing - '' @ str_exn x) w2
                       | (Inr _, w2) \<Rightarrow> w2)
             in if path_exists e temp_plist w3 then os_remove e temp_plist w3
                else (Inr (), w3)))"

text \<open>
  The loop of \<open>extract_mobileprovision_from_ipa\<close> (lines 67-74) over the names of
  \<^verbatim>\<open>namelist()\<close>, with the list \<open>extracted_paths\<close> built so far.
\<close>

fun extract_members ::
  "env \<Rightarrow> (string \<times> (exn + fdata)) list \<Rightarrow> string list \<Rightarrow> string list \<Rightarrow> world
     \<Rightarrow> (exn + string list) \<times> world"
where
  "extract_members e ipa_zip [] extracted_paths w = (Inr extracted_paths, w)"
| "extract_members e ipa_zip (file # rest) extracted_paths w =
     (if endswith file ''embedded.mobileprovision'' then
        (let extract_path =
               join TEMP_DIR (basename file @ ''_'' @ str_nat (length extracted_paths))
         in case zip_extract e ipa_zip file TEMP_DIR w of
              (Inl x, w1) \<Rightarrow> (Inl x, w1)
            | (Inr _, w1) \<Rightarrow>
                (case shutil_move e (join TEMP_DIR file) extract_path w1 of
                   (Inl x, w2) \<Rightarrow> (Inl x, w2)
                 | (Inr _, w2) \<Rightarrow>
                     extract_members e ipa_zip rest (extracted_paths @ [extract_path]) w2))
      else extract_members e ipa_zip rest extracted_paths w)"

text \<open>
  \<open>extract_mobileprovision_from_ipa\<close> (lines 61-80): every exception of the
  \<^verbatim>\<open>try\<close> block is printed and the empty list returned.
\<close>

definition extract_mobileprovision_from_ipa ::
  "env \<Rightarrow> string \<Rightarrow> world \<Rightarrow> string list \<times> world"
where
  "extract_mobileprovision_from_ipa e ipa_path w =
     (case zip_open e ipa_path w of
        Inl x \<Rightarrow> ([], print (ipa_path @ '': Error extracting - '' @ str_exn x) w)
      | Inr ipa_zip \<Rightarrow>
          (case extract_members e ipa_zip (map fst ipa_zip) [] w of
             (Inl x, w1) \<Rightarrow> ([], print (ipa_path @ '': Error extracting - '' @ str_exn x) w1)
           | (Inr extracted_paths, w1) \<Rightarrow>
               (extracted_paths,
                if extracted_paths = []
                then print (ipa_path @ '': No embedded.mobileprovision found'') w1
                else w1)))"

text \<open>The loop of lines 95-96.\<close>

fun check_all :: "env \<Rightarrow> string list \<Rightarrow> world \<Rightarrow> (exn + unit) \<times> world" where
  "check_all e [] w = (Inr (), w)"
| "check_all e (extracted_path # rest) w =
     (case check_expiry e extracted_path w of
        (Inl x, w1) \<Rightarrow> (Inl x, w1)
      | (Inr _, w1) \<Rightarrow> check_all e rest w1)"

text \<open>The body of the inner loop of \<open>process_directory\<close> (lines 86-96), for one file.\<close>

definition process_file :: "env \<Rightarrow> string \<Rightarrow> string \<Rightarrow> world \<Rightarrow> (exn + unit) \<times> world" where
  "process_file e root filename w =
     (let file_path = join root filename in
      if endswith filename ''.mobileprovision'' then check_expiry e file_path w
      else if endswith filename ''.ipa'' then
        (case extract_mobileprovision_from_ipa e file_path w of
           (extracted_paths, w1) \<Rightarrow> check_all e extracted_paths w1)
      else (Inr (), w))"

fun process_files :: "env \<Rightarrow> string \<Rightarrow> string list \<Rightarrow> world \<Rightarrow> (exn + unit) \<times> world" where
  "process_files e root [] w = (Inr (), w)"
| "process_files e root (filename # files) w =
     (case process_file e root filename w of
        (Inl x, w1) \<Rightarrow> (Inl x, w1)
      | (Inr _, w1) \<Rightarrow> process_files e root files w1)"

fun process_roots ::
  "env \<Rightarrow> (string \<times> string list) list \<Rightarrow> world \<Rightarrow> (exn + unit) \<times> world"
where
  "process_roots e [] w = (Inr (), w)"
| "process_roots e ((root, files) # walk) w =
     (case process_files e root files w of
        (Inl x, w1) \<Rightarrow> (Inl x, w1)
      | (Inr _, w1) \<Rightarrow> process_roots e walk w1)"

text \<open>\<open>process_directory\<close> (lines 82-96).\<close>

definition process_directory :: "env \<Rightarrow> string \<Rightarrow> world \<Rightarrow> (exn + unit) \<times> world" where
  "process_directory e directory w = process_roots e (os_walk e directory) w"

text \<open>\<open>main\<close> (lines 98-109).\<close>

definition main :: "env \<Rightarrow> world \<Rightarrow> (exn + unit) \<times> world" where
  "main e w =
     (case (if path_exists e TEMP_DIR w then shutil_rmtree e TEMP_DIR w else (Inr (), w)) of
        (Inl x, w1) \<Rightarrow> (Inl x, w1)
      | (Inr _, w1) \<Rightarrow>
          (case os_makedirs e TEMP_DIR w1 of
             (Inl x, w2) \<Rightarrow> (Inl x, w2)
           | (Inr _, w2) \<Rightarrow>
               (case process_directory e ROOT_DIR w2 of
                  (Inl x, w3) \<Rightarrow> (Inl x, w3)
                | (Inr _, w3) \<Rightarrow>
                    if path_exists e TEMP_DIR w3 then shutil_rmtree e TEMP_DIR w3
                    else (Inr (), w3))))"

section \<open>The naming scheme of the specification\<close>

text \<open>
  The specification's words for the extractor, to be compared with the loop of
  \<open>extract_members\<close>: the members whose name ends with the embedded-profile file name
  are selected, and the \<open>i\<close>-th selected member (counted from \<open>k\<close>) is given the path of
  its base name with the index appended, in the scratch directory.
\<close>

definition matching :: "string list \<Rightarrow> string list" where
  "matching names = filter (\<lambda>n. endswith n ''embedded.mobileprovision'') names"

definition disambiguated :: "nat \<Rightarrow> string list \<Rightarrow> string list" where
  "disambiguated k names =
     map (\<lambda>(i, n). join TEMP_DIR (basename n @ ''_'' @ str_nat i)) (enumerate k names)"

section \<open>Assumptions on the external process\<close>


text \<open>The external process removes nothing: what exists before a call exists after it.\<close>

definition keeps_entries :: "env \<Rightarrow> bool" where
  "keeps_entries e =
     (\<forall>args t k. lookup t k \<noteq> None \<longrightarrow> lookup (snd (subprocess_run e args t)) k \<noteq> None)"

section \<open>Example runs\<close>

text \<open>
  A working directory \<^verbatim>\<open>/repo\<close>, a clock, and an external process that decodes three
  known signed profiles, rejects every other input after it has created its output
  file, and refuses a directory as output.
\<close>

definition ex_cwd :: key where
  "ex_cwd = [''repo'']"

definition ex_now :: datetime where
  "ex_now = Datetime 2024 6 1 12 0 0 0"

definition ex_expired_doc :: pvalue where
  "ex_expired_doc =
     PDict [(''Name'', PString ''dev''), (''ExpirationDate'', PDate (Datetime 2020 1 1 0 0 0 0))]"

definition ex_valid_doc :: pvalue where
  "ex_valid_doc = PDict [(''ExpirationDate'', PDate (Datetime 2030 12 31 23 59 59 0))]"

definition ex_nodate_doc :: pvalue where
  "ex_nodate_doc = PDict [(''Name'', PString ''dev'')]"

definition ex_decode :: "string \<Rightarrow> pvalue option" where
  "ex_decode s =
     (if s = ''signed-expired'' then Some ex_expired_doc
      else if s = ''signed-valid'' then Some ex_valid_doc
      else if s = ''signed-nodate'' then Some ex_nodate_doc
      else None)"

definition ex_security :: "string list \<Rightarrow> node \<Rightarrow> run_outcome \<times> node" where
  "ex_security args t =
     (case args of
        [_, _, _, _, inp, _, outp] \<Rightarrow>
          if is_dir t (resolve ex_cwd outp)
          then (Exited 1 ''security: cannot open output file'', t)
          else
            (case lookup t (resolve ex_cwd inp) of
               Some (File (Blob s)) \<Rightarrow>
                 (case ex_decode s of
                    Some v \<Rightarrow> (Exited 0 [], put (resolve ex_cwd outp) (Some (File (Plist v))) t)
                  | None \<Rightarrow>
                      (Exited 1 ''security: failed to decode message'',
                       put (resolve ex_cwd outp) (Some (File (Blob []))) t))
             | _ \<Rightarrow> (Exited 1 ''security: cannot open input file'', t))
      | _ \<Rightarrow> (Exited 2 ''security: usage'', t))"


text \<open>Archives: two profiles; one profile; another one profile; none.\<close>

definition ex_ipa :: fdata where
  "ex_ipa =
     Zip [(''Payload/App.app/Info.plist'', Inr (Blob ''info'')),
          (''Payload/App.app/embedded.mobileprovision'', Inr (Blob ''signed-expired'')),
          (''Payload/App.app/PlugIns/Ext.appex/embedded.mobileprovision'',
             Inr (Blob ''signed-valid''))]"

definition ex_other_ipa :: fdata where
  "ex_other_ipa = Zip [(''Payload/Other.app/embedded.mobileprovision'', Inr (Blob ''signed-valid''))]"

definition ex_third_ipa :: fdata where
  "ex_third_ipa = Zip [(''Payload/Third.app/embedded.mobileprovision'', Inr (Blob ''signed-expired''))]"

definition ex_empty_ipa :: fdata where
  "ex_empty_ipa = Zip [(''Payload/App.app/Info.plist'', Inr (Blob ''info''))]"

text \<open>
  An archive whose second profile lies in a directory named like the path the first
  one is moved to, and an archive whose second profile is encrypted.
\<close>

definition ex_clash_ipa :: fdata where
  "ex_clash_ipa =
     Zip [(''embedded.mobileprovision'', Inr (Blob ''signed-expired'')),
          (''embedded.mobileprovision_0/embedded.mobileprovision'', Inr (Blob ''signed-valid''))]"

definition ex_locked_error :: exn where
  "ex_locked_error =
     Exn RuntimeError
       (''File '' @ [CHR 0x27] @ ''Payload/App.app/PlugIns/Ext.appex/embedded.mobileprovision''
        @ [CHR 0x27] @ '' is encrypted, password required for extraction'')"

definition ex_locked_ipa :: fdata where
  "ex_locked_ipa =
     Zip [(''Payload/App.app/embedded.mobileprovision'', Inr (Blob ''signed-valid'')),
          (''Payload/App.app/PlugIns/Ext.appex/embedded.mobileprovision'', Inl ex_locked_error)]"

text \<open>A directory tree for a whole run, and what \<^verbatim>\<open>os.walk\<close> yields on it.\<close>

definition ex_repo :: "string \<Rightarrow> node option" where
  "ex_repo =
     [''a.mobileprovision'' \<mapsto> File (Blob ''signed-expired''),
      ''app.ipa'' \<mapsto> File ex_ipa,
      ''bad.mobileprovision'' \<mapsto> File (Blob ''garbage''),
      ''notes.txt'' \<mapsto> File (Blob ''hello'')]"

definition ex_walk :: "string \<Rightarrow> (string \<times> string list) list" where
  "ex_walk directory =
     [(directory,
         [''a.mobileprovision'', ''app.ipa'', ''bad.mobileprovision'', ''notes.txt'']),
      (join directory ''temp_extracted'',
         [''embedded.mobileprovision_0'', ''embedded.mobileprovision_1'']),
      (join directory ''temp_extracted/Payload'', []),
      (join directory ''temp_extracted/Payload/App.app'', []),
      (join directory ''temp_extracted/Payload/App.app/PlugIns'', []),
      (join directory ''temp_extracted/Payload/App.app/PlugIns/Ext.appex'', [])]"

definition ex_env :: env where
  "ex_env =
     \<lparr>cwd = ex_cwd, CURRENT_DATE = ex_now, subprocess_run = ex_security, os_walk = ex_walk\<rparr>"

definition ex_world :: world where
  "ex_world = \<lparr>fs = Dir [''repo'' \<mapsto> Dir ex_repo], out = []\<rparr>"


text \<open>
  A directory of archives and profiles, with the scratch directory as \<open>main\<close> has
  created it.
\<close>

definition ex_archives :: "string \<Rightarrow> node option" where
  "ex_archives =
     [''app.ipa'' \<mapsto> File ex_ipa,
      ''other.ipa'' \<mapsto> File ex_other_ipa,
      ''third.ipa'' \<mapsto> File ex_third_ipa,
      ''empty.ipa'' \<mapsto> File ex_empty_ipa,
      ''clash.ipa'' \<mapsto> File ex_clash_ipa,
      ''locked.ipa'' \<mapsto> File ex_locked_ipa,
      ''broken.ipa'' \<mapsto> File (Blob ''not a zip''),
      ''valid.mobileprovision'' \<mapsto> File (Blob ''signed-valid''),
      ''nodate.mobileprovision'' \<mapsto> File (Blob ''signed-nodate''),
      ''temp_extracted'' \<mapsto> Dir Map.empty]"

definition ex_ready :: world where
  "ex_ready = \<lparr>fs = Dir [''repo'' \<mapsto> Dir ex_archives], out = []\<rparr>"

text \<open>The state after the archive \<^verbatim>\<open>other.ipa\<close> has been processed.\<close>

definition ex_after_other :: world where
  "ex_after_other = snd (process_file ex_env ''.'' ''other.ipa'' ex_ready)"

text \<open>The state after the archive \<^verbatim>\<open>locked.ipa\<close> has been processed.\<close>

definition ex_after_locked :: world where
  "ex_after_locked = snd (process_file ex_env ''.'' ''locked.ipa'' ex_ready)"

text \<open>The first tree again, in a later state of the output.\<close>

definition ex_later :: world where
  "ex_later = \<lparr>fs = fs ex_world, out = [''(an earlier line)'']\<rparr>"



section \<open>The file system tree\<close>

lemma lookup_append_None: "lookup t k = None \<Longrightarrow> lookup t (k @ r) = None"
  by (induction k arbitrary: t) (auto split: node.splits option.splits)

lemma lookup_put_None': "v = None \<Longrightarrow> k \<noteq> [] \<Longrightarrow> lookup (put k v t) k = None"
  by (induction k v t rule: put.induct) (auto split: node.splits option.splits)

lemma lookup_put_None: "k \<noteq> [] \<Longrightarrow> lookup (put k None t) k = None"
  by (simp add: lookup_put_None')

lemma lookup_put_None_below: "k \<noteq> [] \<Longrightarrow> lookup (put k None t) (k @ r) = None"
  by (simp add: lookup_append_None lookup_put_None)

lemma lookup_File_below: "lookup t k = Some (File x) \<Longrightarrow> r \<noteq> [] \<Longrightarrow> lookup t (k @ r) = None"
  by (induction k arbitrary: t) (auto split: node.splits option.splits simp: neq_Nil_conv)

lemma put_frame:
  "\<not> prefix k p \<Longrightarrow>
     (lookup (put k v t) p = None \<longleftrightarrow> lookup t p = None) \<and>
     is_dir (put k v t) p = is_dir t p \<and> is_file (put k v t) p = is_file t p"
proof (induction k v t arbitrary: p rule: put.induct)
  case (1 v n)
  then show ?case by simp
next
  case (2 c v n)
  then show ?case
    by (cases p) (auto simp: is_dir_def is_file_def split: node.splits option.splits)
next
  case (3 c c' cs v n)
  show ?case
  proof (cases p)
    case Nil
    then show ?thesis by (auto simp: is_dir_def is_file_def split: node.splits option.splits)
  next
    case (Cons a q)
    show ?thesis
    proof (cases n)
      case (File x)
      then show ?thesis by simp
    next
      case (Dir d)
      show ?thesis
      proof (cases "d c")
        case None
        then show ?thesis using Dir by simp
      next
        case (Some n')
        show ?thesis
        proof (cases "a = c")
          case True
          with 3(2) Cons have "\<not> prefix (c' # cs) q" by simp
          from 3(1)[OF Dir Some this] show ?thesis
            using Dir Some Cons True by (simp add: is_dir_def is_file_def)
        next
          case False
          then show ?thesis using Dir Some Cons by (simp add: is_dir_def is_file_def)
        qed
      qed
    qed
  qed
qed

lemma is_dir_Cons:
  "is_dir n (c # k) = (case n of File _ \<Rightarrow> False | Dir d \<Rightarrow> (case d c of None \<Rightarrow> False | Some n' \<Rightarrow> is_dir n' k))"
  by (simp add: is_dir_def split: node.splits option.splits)

lemma lookup_put_same:
  "k \<noteq> [] \<Longrightarrow> is_dir t (butlast k) \<Longrightarrow> lookup (put k v t) k = v"
proof (induction k v t rule: put.induct)
  case (1 v n)
  then show ?case by simp
next
  case (2 c v n)
  then show ?case by (auto simp: is_dir_def split: node.splits option.splits)
next
  case (3 c c' cs v n)
  from 3(3) have "is_dir n (c # butlast (c' # cs))" by simp
  then obtain d n' where n: "n = Dir d" and d: "d c = Some n'" and sub: "is_dir n' (butlast (c' # cs))"
    by (auto simp: is_dir_Cons split: node.splits option.splits)
  have "lookup (put (c' # cs) v n') (c' # cs) = v"
    using 3(1)[OF n d _ sub] by simp
  moreover have "put (c # c' # cs) v n = Dir (d(c \<mapsto> put (c' # cs) v n'))"
    using n d by simp
  then have "lookup (put (c # c' # cs) v n) (c # c' # cs) = lookup (put (c' # cs) v n') (c' # cs)"
    by (simp only: lookup.simps node.case fun_upd_same option.case)
  ultimately show ?case by simp
qed

section \<open>Checking one profile\<close>

lemma split_on_nonempty: "split_on c s \<noteq> []"
  by (induction s) (auto split: list.splits)

lemma split_on_append_last:
  "c \<notin> set s \<Longrightarrow> split_on c (p @ s) = butlast (split_on c p) @ [last (split_on c p) @ s]"
proof (induction p)
  case Nil
  then show ?case by (induction s) (auto split: list.splits)
next
  case (Cons x p)
  then show ?case
    using split_on_nonempty[of c p] split_on_nonempty[of c "p @ s"]
    by (auto split: list.splits simp: butlast_append)
qed

lemma resolve_suffix:
  assumes "CHR ''/'' \<notin> set s" and "s \<noteq> []" and "last (split_on CHR ''/'' p) @ s \<noteq> ''.''"
    and "last (split_on CHR ''/'' p) @ s \<noteq> ''..''"
  shows "\<exists>ks. resolve wd (p @ s) = ks @ [last (split_on CHR ''/'' p) @ s]"
  using assms by (auto simp add: resolve_def split_on_append_last step_def)

lemma resolve_plist_nonempty: "resolve wd (p @ ''.plist'') \<noteq> []"
proof -
  have "\<exists>ks. resolve wd (p @ ''.plist'') = ks @ [last (split_on CHR ''/'' p) @ ''.plist'']"
    by (rule resolve_suffix) auto
  then show ?thesis by auto
qed

lemma decode_exit_zero:
  "subprocess_run e [''security'', ''cms'', ''-D'', ''-i'', fp, ''-o'', tp] (fs w) = (Exited 0 err, t)
   \<Longrightarrow> decode_mobileprovision e fp tp w = (Inr True, w\<lparr>fs := t\<rparr>)"
  by (simp add: decode_mobileprovision_def)

lemma check_expiry_decoded:
  assumes run: "subprocess_run e [''security'', ''cms'', ''-D'', ''-i'', fp, ''-o'', fp @ ''.plist''] (fs w)
                  = (Exited 0 err, t)"
    and doc: "lookup t (resolve (cwd e) (fp @ ''.plist'')) = Some (File (Plist v))"
  shows "check_expiry e fp w =
           (Inr (),
            \<lparr>fs = put (resolve (cwd e) (fp @ ''.plist'')) None t,
             out = out w @
               [case py_get v ''ExpirationDate'' of
                  Inl x \<Rightarrow> fp @ '': Error processing - '' @ str_exn x
                | Inr None \<Rightarrow> fp @ '': No expiration date found''
                | Inr (Some x) \<Rightarrow>
                    if \<not> truthy x then fp @ '': No expiration date found''
                    else (case x of
                            PDate d \<Rightarrow>
                              fp @ '': '' @ (if datetime_less d (CURRENT_DATE e) then ''EXPIRED'' else ''VALID'')
                                @ '' (Expires: '' @ str_datetime d @ '')''
                          | _ \<Rightarrow> fp @ '': Error processing - '' @ str_exn (not_comparable x))]\<rparr>)"
proof -
  let ?tp = "fp @ ''.plist''"
  let ?w1 = "w\<lparr>fs := t\<rparr>"
  have dec: "decode_mobileprovision e fp ?tp w = (Inr True, ?w1)"
    by (rule decode_exit_zero[OF run])
  have load: "plist_load e ?tp ?w1 = Inr v"
    using doc by (simp add: plist_load_def)
  show ?thesis
    using dec load doc
    by (cases v; cases "py_get v ''ExpirationDate''")
       (auto simp: check_expiry_def read_verdict_def print_def Let_def path_exists_def os_remove_def
             split: sum.splits option.splits pvalue.splits)
qed

lemma ex_env_simps:
  "cwd ex_env = ex_cwd" "CURRENT_DATE ex_env = ex_now" "subprocess_run ex_env = ex_security"
  "os_walk ex_env = ex_walk"
  by (simp_all add: ex_env_def)

lemma ex_resolve_here:
  "CHR ''/'' \<notin> set name \<Longrightarrow> name \<noteq> [] \<Longrightarrow> name \<noteq> ''.'' \<Longrightarrow> name \<noteq> ''..''
   \<Longrightarrow> resolve ex_cwd (''./'' @ name) = [''repo'', name]"
proof -
  assume a: "CHR ''/'' \<notin> set name" "name \<noteq> []" "name \<noteq> ''.''" "name \<noteq> ''..''"
  have "split_on CHR ''/'' name = [name]"
    using a(1) by (induction name) (auto split: list.splits)
  then show ?thesis
    using a by (simp add: resolve_def step_def ex_cwd_def)
qed

lemma ex_run_a:
  "subprocess_run ex_env
     [''security'', ''cms'', ''-D'', ''-i'', ''./a.mobileprovision'', ''-o'',
      ''./a.mobileprovision'' @ ''.plist''] (fs ex_world)
   = (Exited 0 [],
      put [''repo'', ''a.mobileprovision.plist''] (Some (File (Plist ex_expired_doc))) (fs ex_world))"
  by (simp add: ex_env_simps ex_security_def ex_resolve_here[of "''a.mobileprovision''", simplified]
        ex_resolve_here[of "''a.mobileprovision.plist''", simplified]
        ex_world_def ex_repo_def is_dir_def ex_decode_def)

text \<open>
  C1. When decoding succeeded and the decoded document holds a date under the
  expiration key, \<open>check_expiry\<close> returns normally and prints exactly one line: the
  file path, the status and the expiration instant, the status being \<^verbatim>\<open>EXPIRED\<close> if
  and only if the expiration instant is strictly earlier than \<open>CURRENT_DATE\<close>, and
  \<^verbatim>\<open>VALID\<close> otherwise.
\<close>

theorem check_expiry_expired_iff_earlier:
  assumes "subprocess_run e
             [''security'', ''cms'', ''-D'', ''-i'', file_path, ''-o'', file_path @ ''.plist''] (fs w)
           = (Exited 0 err, t)"
    and "lookup t (resolve (cwd e) (file_path @ ''.plist'')) = Some (File (Plist (PDict doc)))"
    and "map_of doc ''ExpirationDate'' = Some (PDate d)"
  shows "check_expiry e file_path w =
           (Inr (),
            \<lparr>fs = put (resolve (cwd e) (file_path @ ''.plist'')) None t,
             out = out w @
               [file_path @ '': ''
                  @ (if datetime_less d (CURRENT_DATE e) then ''EXPIRED'' else ''VALID'')
                  @ '' (Expires: '' @ str_datetime d @ '')'']\<rparr>)"
  using check_expiry_decoded[OF assms(1) assms(2)] assms(3) by simp

theorem check_expiry_expired_iff_earlier_witness:
  "fst (check_expiry ex_env ''./a.mobileprovision'' ex_world) = Inr () \<and>
   out (snd (check_expiry ex_env ''./a.mobileprovision'' ex_world)) =
     [''./a.mobileprovision: EXPIRED (Expires: 2020-01-01 00:00:00)'']"
proof -
  have doc: "lookup (put [''repo'', ''a.mobileprovision.plist''] (Some (File (Plist ex_expired_doc)))
                       (fs ex_world))
               (resolve (cwd ex_env) (''./a.mobileprovision'' @ ''.plist''))
             = Some (File (Plist (PDict [(''Name'', PString ''dev''),
                   (''ExpirationDate'', PDate (Datetime 2020 1 1 0 0 0 0))])))"
    by (simp add: ex_env_simps ex_resolve_here[of "''a.mobileprovision.plist''", simplified]
          ex_world_def ex_expired_doc_def)
  have key: "map_of [(''Name'', PString ''dev''), (''ExpirationDate'', PDate (Datetime 2020 1 1 0 0 0 0))]
               ''ExpirationDate'' = Some (PDate (Datetime 2020 1 1 0 0 0 0))"
    by simp
  have shown: "str_datetime (Datetime 2020 1 1 0 0 0 0) = ''2020-01-01 00:00:00''"
    by (simp add: str_datetime_def zpad_def str_nat.simps digit_def)
  have lt: "datetime_less (Datetime 2020 1 1 0 0 0 0) (CURRENT_DATE ex_env)"
    by (simp add: ex_env_simps ex_now_def datetime_less_def date_fields_def)
  show ?thesis
    using check_expiry_expired_iff_earlier[OF ex_run_a doc key] shown lt
    by (simp add: ex_world_def)
qed

lemma ex_resolve_here':
  "CHR ''/'' \<notin> set name \<Longrightarrow> name \<noteq> [] \<Longrightarrow> name \<noteq> ''.'' \<Longrightarrow> name \<noteq> ''..''
   \<Longrightarrow> resolve ex_cwd (''./'' @ name @ ''.plist'') = [''repo'', name @ ''.plist'']"
  using ex_resolve_here[of "name @ ''.plist''"] by auto

lemma ex_run_nodate:
  "subprocess_run ex_env
     [''security'', ''cms'', ''-D'', ''-i'', ''./nodate.mobileprovision'', ''-o'',
      ''./nodate.mobileprovision'' @ ''.plist''] (fs ex_ready)
   = (Exited 0 [],
      put [''repo'', ''nodate.mobileprovision.plist''] (Some (File (Plist ex_nodate_doc))) (fs ex_ready))"
  by (simp add: ex_env_simps ex_security_def ex_resolve_here[of "''nodate.mobileprovision''", simplified]
        ex_resolve_here[of "''nodate.mobileprovision.plist''", simplified]
        ex_ready_def ex_archives_def is_dir_def ex_decode_def)

lemma ex_run_bad:
  "subprocess_run ex_env
     [''security'', ''cms'', ''-D'', ''-i'', ''./bad.mobileprovision'', ''-o'',
      ''./bad.mobileprovision'' @ ''.plist''] (fs ex_world)
   = (Exited 1 ''security: failed to decode message'',
      put [''repo'', ''bad.mobileprovision.plist''] (Some (File (Blob []))) (fs ex_world))"
  by (simp add: ex_env_simps ex_security_def ex_resolve_here[of "''bad.mobileprovision''", simplified]
        ex_resolve_here[of "''bad.mobileprovision.plist''", simplified]
        ex_world_def ex_repo_def is_dir_def ex_decode_def)

text \<open>
  C8. When decoding succeeded and the decoded document is a dictionary without the
  expiration key, \<open>check_expiry\<close> returns normally and the one line it prints is the
  \<^verbatim>\<open>No expiration date found\<close> line for the file: no \<^verbatim>\<open>EXPIRED\<close> or \<^verbatim>\<open>VALID\<close>
  line is printed.
\<close>

theorem check_expiry_missing_key:
  assumes "subprocess_run e
             [''security'', ''cms'', ''-D'', ''-i'', file_path, ''-o'', file_path @ ''.plist''] (fs w)
           = (Exited 0 err, t)"
    and "lookup t (resolve (cwd e) (file_path @ ''.plist'')) = Some (File (Plist (PDict doc)))"
    and "map_of doc ''ExpirationDate'' = None"
  shows "check_expiry e file_path w =
           (Inr (),
            \<lparr>fs = put (resolve (cwd e) (file_path @ ''.plist'')) None t,
             out = out w @ [file_path @ '': No expiration date found'']\<rparr>)"
  using check_expiry_decoded[OF assms(1) assms(2)] assms(3) by simp

theorem check_expiry_missing_key_witness:
  "fst (check_expiry ex_env ''./nodate.mobileprovision'' ex_ready) = Inr () \<and>
   out (snd (check_expiry ex_env ''./nodate.mobileprovision'' ex_ready)) =
     [''./nodate.mobileprovision: No expiration date found'']"
proof -
  have doc: "lookup (put [''repo'', ''nodate.mobileprovision.plist''] (Some (File (Plist ex_nodate_doc)))
                       (fs ex_ready))
               (resolve (cwd ex_env) (''./nodate.mobileprovision'' @ ''.plist''))
             = Some (File (Plist (PDict [(''Name'', PString ''dev'')])))"
    by (simp add: ex_env_simps ex_resolve_here[of "''nodate.mobileprovision.plist''", simplified]
          ex_ready_def ex_nodate_doc_def)
  have key: "map_of [(''Name'', PString ''dev'')] ''ExpirationDate'' = None"
    by simp
  show ?thesis
    using check_expiry_missing_key[OF ex_run_nodate doc key]
    by (simp add: ex_ready_def)
qed

text \<open>
  C9. The instant every comparison uses is the constant \<open>CURRENT_DATE\<close> of the
  environment, which no function of the script changes. Two calls of \<open>check_expiry\<close>
  on the same path, in any two states and with any two external processes, print the
  same lines whenever \<open>CURRENT_DATE\<close> is the same and decoding yields the same
  document.
\<close>

theorem check_expiry_lines_depend_on_instant_and_document:
  assumes "CURRENT_DATE e1 = CURRENT_DATE e2"
    and "subprocess_run e1
           [''security'', ''cms'', ''-D'', ''-i'', file_path, ''-o'', file_path @ ''.plist''] (fs w1)
         = (Exited 0 err1, t1)"
    and "subprocess_run e2
           [''security'', ''cms'', ''-D'', ''-i'', file_path, ''-o'', file_path @ ''.plist''] (fs w2)
         = (Exited 0 err2, t2)"
    and "lookup t1 (resolve (cwd e1) (file_path @ ''.plist'')) = Some (File (Plist v))"
    and "lookup t2 (resolve (cwd e2) (file_path @ ''.plist'')) = Some (File (Plist v))"
  shows "drop (length (out w1)) (out (snd (check_expiry e1 file_path w1))) =
         drop (length (out w2)) (out (snd (check_expiry e2 file_path w2)))"
proof -
  note first = check_expiry_decoded[OF assms(2) assms(4)]
  note second = check_expiry_decoded[OF assms(3) assms(5)]
  show ?thesis
    unfolding first second assms(1) by simp
qed

text \<open>
  C3, at the failing input. The external process rejects \<^verbatim>\<open>./bad.mobileprovision\<close>
  with exit status 1 after it has created its output file; \<open>check_expiry\<close> returns
  normally, having printed the two lines of a failed decode, and the decoded sibling
  still exists.
\<close>

theorem check_expiry_failed_decode_keeps_plist:
  "check_expiry ex_env ''./bad.mobileprovision'' ex_world =
     (Inr (),
      \<lparr>fs = put [''repo'', ''bad.mobileprovision.plist''] (Some (File (Blob []))) (fs ex_world),
       out = [''Error decoding ./bad.mobileprovision: security: failed to decode message'',
              ''./bad.mobileprovision: Failed to decode'']\<rparr>) \<and>
   path_exists ex_env ''./bad.mobileprovision.plist''
     (snd (check_expiry ex_env ''./bad.mobileprovision'' ex_world))"
proof -
  have run: "check_expiry ex_env ''./bad.mobileprovision'' ex_world =
     (Inr (),
      \<lparr>fs = put [''repo'', ''bad.mobileprovision.plist''] (Some (File (Blob []))) (fs ex_world),
       out = [''Error decoding ./bad.mobileprovision: security: failed to decode message'',
              ''./bad.mobileprovision: Failed to decode'']\<rparr>)"
    using ex_run_bad
    by (simp add: check_expiry_def decode_mobileprovision_def print_def ex_world_def)
  have "lookup (put [''repo'', ''bad.mobileprovision.plist''] (Some (File (Blob []))) (fs ex_world))
          [''repo'', ''bad.mobileprovision.plist''] = Some (File (Blob []))"
    by (simp add: ex_world_def)
  then show ?thesis
    using run
    by (simp add: path_exists_def ex_env_simps ex_resolve_here[of "''bad.mobileprovision.plist''", simplified])
qed

lemma read_verdict_effect:
  assumes "read_verdict e fp tp w1 = (r, w2)"
  shows "fs w2 = fs w1 \<and>
         (case r of Inl x \<Rightarrow> out w2 = out w1 | Inr u \<Rightarrow> (\<exists>l. out w2 = out w1 @ [l]))"
  using assms
  by (auto simp: read_verdict_def Let_def print_def
           split: sum.splits option.splits if_splits pvalue.splits)

lemma out_print: "out (print l w) = out w @ [l]"
  by (simp add: print_def)

lemma fs_print: "fs (print l w) = fs w"
  by (simp add: print_def)













theorem check_expiry_lines_depend_on_instant_and_document_witness:
  "drop (length (out ex_world)) (out (snd (check_expiry ex_env ''./a.mobileprovision'' ex_world))) =
   drop (length (out ex_later)) (out (snd (check_expiry ex_env ''./a.mobileprovision'' ex_later)))"
proof -
  have later: "subprocess_run ex_env
     [''security'', ''cms'', ''-D'', ''-i'', ''./a.mobileprovision'', ''-o'',
      ''./a.mobileprovision'' @ ''.plist''] (fs ex_later)
   = (Exited 0 [],
      put [''repo'', ''a.mobileprovision.plist''] (Some (File (Plist ex_expired_doc))) (fs ex_world))"
    using ex_run_a by (simp add: ex_later_def)
  have doc: "lookup (put [''repo'', ''a.mobileprovision.plist''] (Some (File (Plist ex_expired_doc)))
                       (fs ex_world))
               (resolve (cwd ex_env) (''./a.mobileprovision'' @ ''.plist''))
             = Some (File (Plist ex_expired_doc))"
    by (simp add: ex_env_simps ex_resolve_here[of "''a.mobileprovision.plist''", simplified]
          ex_world_def)
  show ?thesis
    using check_expiry_lines_depend_on_instant_and_document[OF refl ex_run_a later doc doc] .
qed

section \<open>Names of extracted files\<close>


lemma digit_not_special: "digit n \<noteq> CHR ''_''" "digit n \<noteq> CHR ''/''" "digit n \<noteq> CHR ''n''" "digit n \<noteq> CHR ''.''"
proof -
  have "digit n \<in> set ''0123456789''"
    unfolding digit_def by (rule nth_mem) simp
  then show "digit n \<noteq> CHR ''_''" "digit n \<noteq> CHR ''/''" "digit n \<noteq> CHR ''n''" "digit n \<noteq> CHR ''.''"
    by auto
qed

lemma str_nat_nonempty: "str_nat n \<noteq> []"
  by (subst str_nat.simps) simp

lemma str_nat_last: "last (str_nat n) = digit n"
  by (subst str_nat.simps) simp

lemma str_nat_chars: "c \<in> set (str_nat n) \<Longrightarrow> \<exists>m. c = digit m"
proof (induction n rule: str_nat.induct)
  case (1 n)
  show ?case
  proof (cases "n < 10")
    case True
    with 1(2) show ?thesis by (subst (asm) str_nat.simps) auto
  next
    case False
    with 1(2) have "c \<in> set (str_nat (n div 10)) \<or> c = digit n"
      by (subst (asm) str_nat.simps) auto
    with 1(1)[OF False] show ?thesis by auto
  qed
qed

lemma str_nat_no_sep: "CHR ''_'' \<notin> set (str_nat n)" "CHR ''/'' \<notin> set (str_nat n)"
  using str_nat_chars digit_not_special by metis+




lemma basename_no_sep: "CHR ''/'' \<notin> set (basename p)"
  unfolding basename_def by (auto dest: set_takeWhileD)

lemma split_on_none: "c \<notin> set s \<Longrightarrow> split_on c s = [s]"
  by (induction s) (auto split: list.splits)

lemma split_on_first: "c \<notin> set s \<Longrightarrow> split_on c (s @ c # r) = s # split_on c r"
  by (induction s) (auto split: list.splits)

text \<open>The path a matching member is moved to: one plain name in the scratch directory.\<close>

lemma join_temp: "CHR ''/'' \<notin> set x \<Longrightarrow> join TEMP_DIR x = ''temp_extracted/'' @ x"
  by (cases x) (auto simp: join_def TEMP_DIR_def)

lemma resolve_temp_child:
  assumes "CHR ''/'' \<notin> set x" and "x \<noteq> []" and "x \<noteq> ''.''" and "x \<noteq> ''..''"
  shows "resolve wd (join TEMP_DIR x) = wd @ [TEMP_DIR, x]"
proof -
  have "split_on CHR ''/'' (''temp_extracted'' @ CHR ''/'' # x) = [''temp_extracted'', x]"
    using assms(1) by (subst split_on_first) (simp_all add: split_on_none)
  then have "resolve wd (''temp_extracted/'' @ x) = wd @ [''temp_extracted'', x]"
    using assms by (simp add: resolve_def step_def)
  then show ?thesis
    unfolding join_temp[OF assms(1)] by (simp add: TEMP_DIR_def)
qed

lemma moved_name:
  "CHR ''/'' \<notin> set (basename n @ CHR ''_'' # str_nat i)"
  "basename n @ CHR ''_'' # str_nat i \<noteq> []"
  "basename n @ CHR ''_'' # str_nat i \<noteq> ''.''"
  "basename n @ CHR ''_'' # str_nat i \<noteq> ''..''"
  "last (basename n @ CHR ''_'' # str_nat i) = digit i"
proof -
  show "CHR ''/'' \<notin> set (basename n @ CHR ''_'' # str_nat i)"
    using basename_no_sep str_nat_no_sep by simp
  show "basename n @ CHR ''_'' # str_nat i \<noteq> []" by simp
  show l: "last (basename n @ CHR ''_'' # str_nat i) = digit i"
    using str_nat_nonempty str_nat_last by simp
  show "basename n @ CHR ''_'' # str_nat i \<noteq> ''.''"
    using l digit_not_special(4)[of i] by (metis last.simps)
  show "basename n @ CHR ''_'' # str_nat i \<noteq> ''..''"
    using l digit_not_special(4)[of i] by (metis last.simps)
qed


lemma moved_key:
  "resolve wd (join TEMP_DIR (basename n @ CHR ''_'' # str_nat i)) =
     wd @ [TEMP_DIR, basename n @ CHR ''_'' # str_nat i]"
  by (rule resolve_temp_child) (rule moved_name)+

section \<open>Extracting the profiles of an archive\<close>

lemma extract_members_paths:
  "extract_members e z names acc w = (Inr ps, w1)
   \<Longrightarrow> ps = acc @ disambiguated (length acc) (matching names)"
proof (induction names arbitrary: acc w)
  case Nil
  then show ?case by (simp add: disambiguated_def matching_def)
next
  case (Cons name rest)
  show ?case
  proof (cases "endswith name ''embedded.mobileprovision''")
    case False
    then show ?thesis using Cons by (simp add: matching_def)
  next
    case True
    let ?p = "join TEMP_DIR (basename name @ CHR ''_'' # str_nat (length acc))"
    obtain r1 w' where ze: "zip_extract e z name TEMP_DIR w = (r1, w')"
      by (cases "zip_extract e z name TEMP_DIR w")
    obtain r2 w'' where mv: "shutil_move e (join TEMP_DIR name) ?p w' = (r2, w'')"
      by (cases "shutil_move e (join TEMP_DIR name) ?p w'")
    from Cons(2) True ze mv have "extract_members e z rest (acc @ [?p]) w'' = (Inr ps, w1)"
      by (auto simp: Let_def split: sum.splits)
    from Cons(1)[OF this] show ?thesis
      using True by (simp add: disambiguated_def matching_def)
  qed
qed

lemma extract_members_no_match:
  "matching names = [] \<Longrightarrow> extract_members e z names acc w = (Inr acc, w)"
  by (induction names) (auto simp: matching_def split: if_splits)

lemma extract_members_append:
  "extract_members e z (pre @ rest) acc w =
     (case extract_members e z pre acc w of
        (Inl x, w1) \<Rightarrow> (Inl x, w1)
      | (Inr ps, w1) \<Rightarrow> extract_members e z rest ps w1)"
proof (induction pre arbitrary: acc w)
  case Nil
  then show ?case by simp
next
  case (Cons name pre)
  then show ?case by (auto simp: Let_def split: sum.splits prod.splits)
qed



lemma disambiguated_keys:
  "map (resolve wd) (disambiguated k names) =
     map (\<lambda>(i, n). wd @ [TEMP_DIR, basename n @ CHR ''_'' # str_nat i]) (enumerate k names)"
  by (simp add: disambiguated_def moved_key split_def)



text \<open>
  C6, as amended. The counter restarts with every call of the extractor: two archives
  whose matching members have the same base names, in the same order, are given the
  same scratch paths, whatever the state and whichever archive came first.
\<close>

theorem extract_paths_repeat_across_archives:
  assumes "zip_open e ipa_path w = Inr ipa_zip"
    and "extract_members e ipa_zip (map fst ipa_zip) [] w = (Inr extracted_paths, w1)"
    and "zip_open e' ipa_path' w' = Inr ipa_zip'"
    and "extract_members e' ipa_zip' (map fst ipa_zip') [] w' = (Inr extracted_paths', w1')"
    and "map basename (matching (map fst ipa_zip)) = map basename (matching (map fst ipa_zip'))"
  shows "fst (extract_mobileprovision_from_ipa e ipa_path w) =
         fst (extract_mobileprovision_from_ipa e' ipa_path' w')"
proof -
  have names: "disambiguated 0 ns =
       map (\<lambda>(i, b). join TEMP_DIR (b @ CHR ''_'' # str_nat i)) (enumerate 0 (map basename ns))" for ns
    by (simp add: disambiguated_def enumerate_eq_zip zip_map2 split_def)
  have "extracted_paths = extracted_paths'"
    using extract_members_paths[OF assms(2)] extract_members_paths[OF assms(4)] assms(5)
    by (simp add: names)
  then show ?thesis
    using assms(1-4) by (simp add: extract_mobileprovision_from_ipa_def)
qed

text \<open>
  C7. An archive that cannot be opened as a zip container gives one
  \<^verbatim>\<open>Error extracting\<close> line and the empty list, without raising; a readable archive
  without a matching member gives exactly one \<^verbatim>\<open>No embedded.mobileprovision found\<close>
  line and the empty list; and when the extractor returns the empty list for an
  archive, processing that archive ends in the state the extractor left: no profile
  is checked.
\<close>

theorem extract_unreadable_or_without_profile:
  "(zip_open e ipa_path w = Inl x \<longrightarrow>
      extract_mobileprovision_from_ipa e ipa_path w =
        ([], print (ipa_path @ '': Error extracting - '' @ str_exn x) w)) \<and>
   (zip_open e ipa_path w = Inr ipa_zip \<and> matching (map fst ipa_zip) = [] \<longrightarrow>
      extract_mobileprovision_from_ipa e ipa_path w =
        ([], print (ipa_path @ '': No embedded.mobileprovision found'') w)) \<and>
   (endswith filename ''.ipa'' \<and> \<not> endswith filename ''.mobileprovision'' \<and>
    fst (extract_mobileprovision_from_ipa e (join root filename) w) = [] \<longrightarrow>
      process_file e root filename w =
        (Inr (), snd (extract_mobileprovision_from_ipa e (join root filename) w)))"
proof (intro conjI impI)
  assume "zip_open e ipa_path w = Inl x"
  then show "extract_mobileprovision_from_ipa e ipa_path w =
               ([], print (ipa_path @ '': Error extracting - '' @ str_exn x) w)"
    by (simp add: extract_mobileprovision_from_ipa_def)
next
  assume "zip_open e ipa_path w = Inr ipa_zip \<and> matching (map fst ipa_zip) = []"
  then show "extract_mobileprovision_from_ipa e ipa_path w =
               ([], print (ipa_path @ '': No embedded.mobileprovision found'') w)"
    by (simp add: extract_mobileprovision_from_ipa_def extract_members_no_match)
next
  assume a: "endswith filename ''.ipa'' \<and> \<not> endswith filename ''.mobileprovision'' \<and>
             fst (extract_mobileprovision_from_ipa e (join root filename) w) = []"
  obtain ps w1 where ex: "extract_mobileprovision_from_ipa e (join root filename) w = (ps, w1)"
    by (cases "extract_mobileprovision_from_ipa e (join root filename) w")
  with a have "ps = []" by simp
  then show "process_file e root filename w =
               (Inr (), snd (extract_mobileprovision_from_ipa e (join root filename) w))"
    using a ex by (simp add: process_file_def)
qed

section \<open>The example runs, evaluated\<close>

lemmas eval_defs =
  zip_extract_def arcname_def write_file_def shutil_move_def os_rename_def move_fallback_def
  rstrip_sep_def basename_def join_def endswith_def resolve_def step_def TEMP_DIR_def is_dir_def
  is_file_def path_exists_def Let_def str_nat.simps digit_def ex_env_simps ex_cwd_def

lemmas run_defs =
  process_file_def extract_mobileprovision_from_ipa_def zip_open_def check_expiry_def
  decode_mobileprovision_def read_verdict_def plist_load_def os_remove_def print_def
  ex_security_def ex_decode_def ex_expired_doc_def ex_valid_doc_def ex_nodate_doc_def ex_now_def
  datetime_less_def date_fields_def str_datetime_def zpad_def str_exn_def os_error_def

lemma ex_open_broken:
  "zip_open ex_env ''./broken.ipa'' ex_ready = Inl (Exn BadZipFile ''File is not a zip file'')"
  by (simp add: zip_open_def eval_defs ex_ready_def ex_archives_def)

lemma ex_open_empty:
  "zip_open ex_env ''./empty.ipa'' ex_ready =
     Inr [(''Payload/App.app/Info.plist'', Inr (Blob ''info''))]"
  by (simp add: zip_open_def eval_defs ex_ready_def ex_archives_def ex_empty_ipa_def)

theorem extract_unreadable_or_without_profile_witness:
  "extract_mobileprovision_from_ipa ex_env ''./broken.ipa'' ex_ready =
     ([], print ''./broken.ipa: Error extracting - File is not a zip file'' ex_ready) \<and>
   extract_mobileprovision_from_ipa ex_env ''./empty.ipa'' ex_ready =
     ([], print ''./empty.ipa: No embedded.mobileprovision found'' ex_ready) \<and>
   process_file ex_env ''.'' ''empty.ipa'' ex_ready =
     (Inr (), print ''./empty.ipa: No embedded.mobileprovision found'' ex_ready)"
proof -
  have none: "matching (map fst [(''Payload/App.app/Info.plist'', Inr (Blob ''info''))]) = []"
    by (simp add: matching_def endswith_def)
  have name: "endswith ''empty.ipa'' ''.ipa''" "\<not> endswith ''empty.ipa'' ''.mobileprovision''"
    "join ''.'' ''empty.ipa'' = ''./empty.ipa''"
    by (simp_all add: endswith_def join_def)
  have broken: "extract_mobileprovision_from_ipa ex_env ''./broken.ipa'' ex_ready =
                  ([], print ''./broken.ipa: Error extracting - File is not a zip file'' ex_ready)"
    using extract_unreadable_or_without_profile
            [of ex_env "''./broken.ipa''" ex_ready "Exn BadZipFile ''File is not a zip file''"]
      ex_open_broken
    by (simp add: str_exn_def)
  have empty: "extract_mobileprovision_from_ipa ex_env ''./empty.ipa'' ex_ready =
                 ([], print ''./empty.ipa: No embedded.mobileprovision found'' ex_ready)"
    using extract_unreadable_or_without_profile
            [of ex_env "''./empty.ipa''" ex_ready _ "[(''Payload/App.app/Info.plist'', Inr (Blob ''info''))]"]
      ex_open_empty none
    by simp
  have "process_file ex_env ''.'' ''empty.ipa'' ex_ready =
          (Inr (), print ''./empty.ipa: No embedded.mobileprovision found'' ex_ready)"
    using extract_unreadable_or_without_profile
            [of ex_env _ ex_ready _ _ "''empty.ipa''" "''.''"]
      name empty
    by simp
  with broken empty show ?thesis by simp
qed

lemma ex_after_other_state:
  "ex_after_other =
     \<lparr>fs = Dir [''repo'' \<mapsto>
              Dir (ex_archives
                (''temp_extracted'' \<mapsto>
                   Dir [''Payload'' \<mapsto> Dir [''Other.app'' \<mapsto> Dir Map.empty],
                        ''embedded.mobileprovision_0'' \<mapsto> File (Blob ''signed-valid'')]))],
      out = [''temp_extracted/embedded.mobileprovision_0: VALID (Expires: 2030-12-31 23:59:59)'']\<rparr>"
  by (simp add: ex_after_other_def run_defs eval_defs ex_ready_def ex_archives_def ex_other_ipa_def)

lemma ex_other_returns: "fst (process_file ex_env ''.'' ''other.ipa'' ex_ready) = Inr ()"
  by (simp add: run_defs eval_defs ex_ready_def ex_archives_def ex_other_ipa_def)

text \<open>
  C6, as stated, fails. After \<^verbatim>\<open>other.ipa\<close> has been processed, its profile still
  lies at \<^verbatim>\<open>temp_extracted/embedded.mobileprovision_0\<close>. The extraction for the next
  archive, \<^verbatim>\<open>third.ipa\<close>, returns the same path, and afterwards the file at that
  path holds the profile of \<^verbatim>\<open>third.ipa\<close>.
\<close>

theorem later_archive_replaces_earlier_file:
  "resolve (cwd ex_env) ''temp_extracted/embedded.mobileprovision_0'' =
     [''repo'', ''temp_extracted'', ''embedded.mobileprovision_0''] \<and>
   lookup (fs ex_after_other) [''repo'', ''temp_extracted'', ''embedded.mobileprovision_0''] =
     Some (File (Blob ''signed-valid'')) \<and>
   fst (extract_mobileprovision_from_ipa ex_env ''./third.ipa'' ex_after_other) =
     [''temp_extracted/embedded.mobileprovision_0''] \<and>
   lookup (fs (snd (extract_mobileprovision_from_ipa ex_env ''./third.ipa'' ex_after_other)))
       [''repo'', ''temp_extracted'', ''embedded.mobileprovision_0''] =
     Some (File (Blob ''signed-expired''))"
  by (simp add: ex_after_other_state run_defs eval_defs ex_archives_def ex_third_ipa_def)

lemma ex_open_other:
  "zip_open ex_env ''./other.ipa'' ex_ready =
     Inr [(''Payload/Other.app/embedded.mobileprovision'', Inr (Blob ''signed-valid''))]"
  by (simp add: zip_open_def eval_defs ex_ready_def ex_archives_def ex_other_ipa_def)

lemma ex_members_other:
  "fst (extract_members ex_env
          [(''Payload/Other.app/embedded.mobileprovision'', Inr (Blob ''signed-valid''))]
          [''Payload/Other.app/embedded.mobileprovision''] [] ex_ready) =
     Inr [''temp_extracted/embedded.mobileprovision_0'']"
  by (simp add: eval_defs ex_ready_def ex_archives_def)

lemma ex_open_third:
  "zip_open ex_env ''./third.ipa'' ex_after_other =
     Inr [(''Payload/Third.app/embedded.mobileprovision'', Inr (Blob ''signed-expired''))]"
  by (simp add: ex_after_other_state zip_open_def eval_defs ex_archives_def ex_third_ipa_def)

lemma ex_members_third:
  "fst (extract_members ex_env
          [(''Payload/Third.app/embedded.mobileprovision'', Inr (Blob ''signed-expired''))]
          [''Payload/Third.app/embedded.mobileprovision''] [] ex_after_other) =
     Inr [''temp_extracted/embedded.mobileprovision_0'']"
  by (simp add: ex_after_other_state eval_defs ex_archives_def)

theorem extract_paths_repeat_across_archives_witness:
  "fst (extract_mobileprovision_from_ipa ex_env ''./other.ipa'' ex_ready) =
   fst (extract_mobileprovision_from_ipa ex_env ''./third.ipa'' ex_after_other)"
proof -
  let ?z = "[(''Payload/Other.app/embedded.mobileprovision'', Inr (Blob ''signed-valid''))]"
  let ?z' = "[(''Payload/Third.app/embedded.mobileprovision'', Inr (Blob ''signed-expired''))]"
  have em: "extract_members ex_env ?z (map fst ?z) [] ex_ready =
              (Inr [''temp_extracted/embedded.mobileprovision_0''],
               snd (extract_members ex_env ?z (map fst ?z) [] ex_ready))"
    using ex_members_other by (simp add: prod_eq_iff)
  have em': "extract_members ex_env ?z' (map fst ?z') [] ex_after_other =
              (Inr [''temp_extracted/embedded.mobileprovision_0''],
               snd (extract_members ex_env ?z' (map fst ?z') [] ex_after_other))"
    using ex_members_third by (simp add: prod_eq_iff)
  have same: "map basename (matching (map fst ?z)) = map basename (matching (map fst ?z'))"
    by (simp add: matching_def endswith_def basename_def)
  show ?thesis
    by (rule extract_paths_repeat_across_archives[OF ex_open_other em ex_open_third em' same])
qed

section \<open>What extraction leaves in place\<close>

lemma lookup_prefix_exists:
  "lookup t (k @ r) \<noteq> None \<Longrightarrow> lookup t k \<noteq> None"
  using lookup_append_None[of t k r] by (cases "lookup t k") auto

lemma lookup_below_is_dir:
  "lookup t (k @ r) \<noteq> None \<Longrightarrow> r \<noteq> [] \<Longrightarrow> is_dir t k"
proof -
  assume a: "lookup t (k @ r) \<noteq> None" "r \<noteq> []"
  then obtain n where n: "lookup t k = Some n"
    using lookup_prefix_exists[of t k r] by auto
  show ?thesis
  proof (cases n)
    case (File x)
    with n a show ?thesis using lookup_File_below[of t k x r] by simp
  next
    case (Dir d)
    with n show ?thesis by (simp add: is_dir_def)
  qed
qed

lemma lookup_parent_is_dir:
  "lookup t k \<noteq> None \<Longrightarrow> k \<noteq> [] \<Longrightarrow> is_dir t (butlast k)"
  using lookup_below_is_dir[of t "butlast k" "[last k]"] by simp

lemma put_Some_keeps:
  assumes "lookup t k = None \<or> is_file t k" and "lookup t p \<noteq> None"
  shows "lookup (put k (Some n) t) p \<noteq> None"
proof (cases "prefix k p")
  case False
  then show ?thesis using put_frame[OF False] assms(2) by simp
next
  case True
  then obtain r where p: "p = k @ r" by (auto elim: prefixE)
  from assms(2) p have ex: "lookup t k \<noteq> None" using lookup_prefix_exists[of t k r] by simp
  with assms(1) have f: "is_file t k" by simp
  have "r = []"
  proof (rule ccontr)
    assume "r \<noteq> []"
    from lookup_below_is_dir[OF assms(2)[unfolded p] this] f show False
      by (auto simp: is_dir_def is_file_def split: option.splits node.splits)
  qed
  show ?thesis
  proof (cases "k = []")
    case True
    then show ?thesis using assms(2) by simp
  next
    case False
    from lookup_put_same[OF False lookup_parent_is_dir[OF ex False]] p \<open>r = []\<close>
    show ?thesis by simp
  qed
qed

lemma mkdirs_keeps:
  "mkdirs pre rest t = Inr t' \<Longrightarrow> lookup t p \<noteq> None \<Longrightarrow> lookup t' p \<noteq> None"
proof (induction rest arbitrary: pre t)
  case Nil
  then show ?case by simp
next
  case (Cons c cs)
  show ?case
  proof (cases "lookup t (pre @ [c])")
    case None
    with Cons(2) have "mkdirs (pre @ [c]) cs (put (pre @ [c]) (Some (Dir Map.empty)) t) = Inr t'"
      by simp
    from Cons(1)[OF this] put_Some_keeps[of t "pre @ [c]" p] None Cons(3) show ?thesis
      by simp
  next
    case (Some n)
    then show ?thesis using Cons by (cases n) auto
  qed
qed

lemma mkdirs_is_dir:
  "mkdirs pre rest t = Inr t' \<Longrightarrow> is_dir t pre \<Longrightarrow> is_dir t' (pre @ rest)"
proof (induction rest arbitrary: pre t)
  case Nil
  then show ?case by simp
next
  case (Cons c cs)
  show ?case
  proof (cases "lookup t (pre @ [c])")
    case None
    let ?t = "put (pre @ [c]) (Some (Dir Map.empty)) t"
    from None Cons(2) have run: "mkdirs (pre @ [c]) cs ?t = Inr t'" by simp
    have "lookup ?t (pre @ [c]) = Some (Dir Map.empty)"
      using lookup_put_same[of "pre @ [c]" t] Cons(3) by simp
    then have "is_dir ?t (pre @ [c])" by (simp add: is_dir_def)
    from Cons(1)[OF run this] show ?thesis by simp
  next
    case (Some n)
    show ?thesis
    proof (cases n)
      case (File x)
      with Some Cons(2) show ?thesis by simp
    next
      case (Dir d)
      with Some Cons(2) have run: "mkdirs (pre @ [c]) cs t = Inr t'" by simp
      have "is_dir t (pre @ [c])" using Some Dir by (simp add: is_dir_def)
      from Cons(1)[OF run this] show ?thesis by simp
    qed
  qed
qed

lemma write_file_keeps:
  "write_file tp k x t = Inr t' \<Longrightarrow> lookup t p \<noteq> None \<Longrightarrow> lookup t' p \<noteq> None"
  using put_Some_keeps[of t k p "File x"]
  by (auto simp: write_file_def is_file_def split: option.splits node.splits)

lemma zip_extract_keeps:
  assumes "zip_extract e z name dir w = (r, w1)" and "lookup (fs w) p \<noteq> None"
  shows "lookup (fs w1) p \<noteq> None"
proof (cases "map_of (rev z) name")
  case None
  then show ?thesis using assms by (simp add: zip_extract_def)
next
  case (Some content)
  show ?thesis
  proof (cases "arcname name = []")
    case True
    then show ?thesis using assms Some by (simp add: zip_extract_def)
  next
    case False
    let ?target = "resolve (cwd e) dir @ arcname name"
    let ?upper = "butlast ?target"
    let ?made = "if lookup (fs w) ?upper = None then mkdirs [] ?upper (fs w) else Inr (fs w)"
    show ?thesis
    proof (cases ?made)
      case (Inl x)
      then show ?thesis using assms Some False by (auto simp: zip_extract_def Let_def)
    next
      case (Inr t)
      then have t: "lookup t p \<noteq> None"
        using assms(2) mkdirs_keeps by (auto split: if_splits)
      show ?thesis
      proof (cases content)
        case (Inl x)
        then show ?thesis using assms(1) Some False Inr t by (auto simp: zip_extract_def Let_def)
      next
        case data: (Inr x)
        show ?thesis
        proof (cases "write_file (normpath (join dir (sep_join (arcname name)))) ?target x t")
          case (Inl y)
          then show ?thesis
            using assms(1) Some False Inr data t by (auto simp: zip_extract_def Let_def)
        next
          case written: (Inr t')
          from write_file_keeps[OF written t] show ?thesis
            using assms(1) Some False Inr data written by (auto simp: zip_extract_def Let_def)
        qed
      qed
    qed
  qed
qed

lemma os_rename_keeps:
  assumes "os_rename s d t = Inr t'" and "lookup t p \<noteq> None" and "\<not> prefix s p"
  shows "lookup t' p \<noteq> None"
proof (cases "s = d")
  case True
  then show ?thesis using assms by (auto simp: os_rename_def split: option.splits)
next
  case False
  from assms(1) False obtain n where
    n: "lookup t s = Some n" and
    nopre: "take (length s) d \<noteq> s" and
    dst: "lookup t d = None \<or> is_file t d" and
    t': "t' = put d (Some n) (put s None t)"
    by (auto simp: os_rename_def is_file_def split: option.splits if_splits node.splits)
  have "\<not> prefix s d"
    using nopre by (auto simp: prefix_def)
  from put_frame[OF this, of None t] dst
  have dst': "lookup (put s None t) d = None \<or> is_file (put s None t) d" by simp
  from put_frame[OF assms(3), of None t] assms(2)
  have "lookup (put s None t) p \<noteq> None" by simp
  from put_Some_keeps[OF dst' this] t' show ?thesis by simp
qed

lemma move_fallback_keeps:
  assumes "move_fallback s d x t = Inr t'" and "lookup t p \<noteq> None" and "\<not> prefix s p"
  shows "lookup t' p \<noteq> None"
proof -
  from assms(1) obtain h t1 where
    absent: "lookup t d = None" and
    mk: "mkdirs [] (butlast d) t = Inr t1" and
    t': "t' = put d (Some (Dir h)) (put s None t1)"
    by (auto simp: move_fallback_def split: option.splits node.splits if_splits sum.splits)
  have "\<not> prefix d p"
  proof
    assume "prefix d p"
    then obtain r where "p = d @ r" by (auto elim: prefixE)
    with assms(2) absent show False using lookup_prefix_exists[of t d r] by simp
  qed
  from put_frame[OF this, of "Some (Dir h)" "put s None t1"]
       put_frame[OF assms(3), of None t1] mkdirs_keeps[OF mk assms(2)] t'
  show ?thesis by simp
qed

lemma os_rename_moved:
  "os_rename s d t = Inr t' \<Longrightarrow> s = d \<or> \<not> prefix s d"
  by (auto simp: os_rename_def prefix_def split: option.splits if_splits node.splits)

lemma move_fallback_moved:
  "move_fallback s d x t = Inr t' \<Longrightarrow> \<not> prefix s d"
  by (auto simp: move_fallback_def prefix_def split: option.splits if_splits node.splits sum.splits)

lemma os_rename_creates:
  assumes "os_rename s d t = Inr t'"
  shows "lookup t' d \<noteq> None"
proof (cases "s = d")
  case True
  then show ?thesis using assms by (auto simp: os_rename_def split: option.splits)
next
  case False
  from assms False obtain n where
    d: "d \<noteq> []" and
    parent: "is_dir t (butlast d)" and
    t': "t' = put d (Some n) (put s None t)"
    by (auto simp: os_rename_def is_file_def is_dir_def split: option.splits if_splits node.splits)
  from os_rename_moved[OF assms] False have "\<not> prefix s d" by simp
  then have "\<not> prefix s (butlast d)"
    using d by (metis append_butlast_last_id prefix_prefix)
  from put_frame[OF this, of None t] parent have "is_dir (put s None t) (butlast d)" by simp
  from lookup_put_same[OF d this] t' show ?thesis by simp
qed

lemma move_fallback_creates:
  assumes "move_fallback s d x t = Inr t'"
  shows "lookup t' d \<noteq> None"
proof -
  from assms obtain h t1 where
    s: "lookup t s = Some (Dir h)" and
    nopre: "take (length s) d \<noteq> s" and
    absent: "lookup t d = None" and
    mk: "mkdirs [] (butlast d) t = Inr t1" and
    t': "t' = put d (Some (Dir h)) (put s None t1)"
    by (auto simp: move_fallback_def split: option.splits node.splits if_splits sum.splits)
  from nopre have s': "s \<noteq> []" by auto
  from absent have d: "d \<noteq> []" by auto
  have "lookup t ([] @ s) \<noteq> None" using s by simp
  from lookup_below_is_dir[OF this s'] have "is_dir t []" .
  from mkdirs_is_dir[OF mk this] have parent: "is_dir t1 (butlast d)" by simp
  from move_fallback_moved[OF assms] have "\<not> prefix s (butlast d)"
    using d by (metis append_butlast_last_id prefix_prefix)
  from put_frame[OF this, of None t1] parent have "is_dir (put s None t1) (butlast d)" by simp
  from lookup_put_same[OF d this] t' show ?thesis by simp
qed

text \<open>
  A scratch entry is an entry of the scratch directory whose name ends with a digit,
  as the names of moved profiles do. The source of a move is the extracted member,
  whose name ends with the letter n.
\<close>

lemma endswith_split: "endswith q suf \<Longrightarrow> \<exists>pre. q = pre @ suf"
  by (metis append_take_drop_id endswith_def)

lemma resolve_matching:
  assumes "endswith q ''embedded.mobileprovision''"
  shows "\<exists>ks l. resolve wd q = ks @ [l] \<and> last l = CHR ''n''"
proof -
  from endswith_split[OF assms] obtain pre where q: "q = pre @ ''embedded.mobileprovision''"
    by blast
  have "\<exists>ks. resolve wd (pre @ ''embedded.mobileprovision'') =
          ks @ [last (split_on CHR ''/'' pre) @ ''embedded.mobileprovision'']"
    by (rule resolve_suffix) auto
  then show ?thesis unfolding q by auto
qed

lemma endswith_join: "endswith name suf \<Longrightarrow> endswith (join a name) suf"
proof -
  assume "endswith name suf"
  then obtain pre where "name = pre @ suf" using endswith_split by blast
  then have "\<exists>pre'. join a name = pre' @ suf"
    by (auto simp: join_def)
  then show ?thesis by (auto simp: endswith_def)
qed

lemma resolve_temp_grandchild:
  assumes "CHR ''/'' \<notin> set y" and "y \<noteq> []" and "y \<noteq> ''.''" and "y \<noteq> ''..''"
    and "last y \<noteq> CHR ''/''" and "CHR ''/'' \<notin> set b"
  shows "prefix (wd @ [TEMP_DIR]) (resolve wd (join (join TEMP_DIR y) b))"
proof -
  have inner: "join TEMP_DIR y = ''temp_extracted/'' @ y"
    by (rule join_temp[OF assms(1)])
  have "last (''temp_extracted/'' @ y) \<noteq> CHR ''/''"
    using assms(2,5) by simp
  moreover have "b = [] \<or> hd b \<noteq> CHR ''/''"
    using assms(6) by (cases b) auto
  ultimately have j: "join (join TEMP_DIR y) b = ''temp_extracted'' @ CHR ''/'' # y @ CHR ''/'' # b"
    unfolding inner by (auto simp: join_def)
  have "split_on CHR ''/'' (''temp_extracted'' @ CHR ''/'' # y @ CHR ''/'' # b) =
          [''temp_extracted'', y, b]"
    using assms(1,6) by (simp add: split_on_first[of _ "''temp_extracted''"] split_on_first[of _ y] split_on_none)
  then have "resolve wd (join (join TEMP_DIR y) b) = step b (wd @ [''temp_extracted'', y])"
    unfolding j using assms(2-4) by (simp add: resolve_def step_def)
  moreover have "butlast (wd @ [''temp_extracted'', y]) = wd @ [''temp_extracted'']"
    by (simp add: butlast_append)
  ultimately show ?thesis
    by (auto simp: step_def TEMP_DIR_def)
qed

lemma shutil_move_keeps:
  assumes mv: "shutil_move e (join TEMP_DIR name) (join TEMP_DIR (basename m @ CHR ''_'' # str_nat j)) w
                 = (r, w1)"
    and name: "endswith name ''embedded.mobileprovision''"
    and p: "lookup (fs w) (cwd e @ [TEMP_DIR, x]) \<noteq> None"
    and x: "last x \<noteq> CHR ''n''"
  shows "lookup (fs w1) (cwd e @ [TEMP_DIR, x]) \<noteq> None"
proof -
  let ?src = "join TEMP_DIR name"
  let ?y = "basename m @ CHR ''_'' # str_nat j"
  let ?dst = "join TEMP_DIR ?y"
  let ?s = "resolve (cwd e) ?src"
  let ?p = "cwd e @ [TEMP_DIR, x]"
  let ?c = "cwd e @ [TEMP_DIR]"
  from resolve_matching[OF endswith_join[OF name]] obtain ks l where
    s: "?s = ks @ [l]" "last l = CHR ''n''" by blast
  have sp: "?s \<noteq> ?p"
  proof
    assume "?s = ?p"
    with s(1) have "l = x" by (metis append_assoc append_Cons append_Nil last_snoc)
    with s(2) x show False by simp
  qed
  have moved: "\<not> prefix ?s ?p" if "prefix ?c d" and "\<not> prefix ?s d" for d
  proof
    assume "prefix ?s ?p"
    then have "?s = ?p \<or> prefix ?s ?c"
      using prefix_snoc[of ?s ?c x] by simp
    with sp have "prefix ?s ?c" by simp
    with that show False using prefix_order.trans by blast
  qed
  have dst_key: "resolve (cwd e) ?dst = cwd e @ [TEMP_DIR, ?y]"
    by (rule moved_key)
  have under: "prefix ?c (resolve (cwd e) real)"
    if "real = ?dst \<or> real = join ?dst (basename (rstrip_sep ?src))" for real
  proof -
    have "last ?y \<noteq> CHR ''/''"
      using moved_name(5)[of m j] digit_not_special(2)[of j] by simp
    from resolve_temp_grandchild[OF moved_name(1-4) this basename_no_sep]
    show ?thesis using that dst_key by auto
  qed
  let ?into = "is_dir (fs w) (resolve (cwd e) ?dst)"
  let ?real = "if ?into then join ?dst (basename (rstrip_sep ?src)) else ?dst"
  let ?d = "resolve (cwd e) ?real"
  have pd: "prefix ?c ?d" using under[of ?real] by simp
  show ?thesis
  proof (cases "os_rename ?s ?d (fs w)")
    case (Inr t)
    from os_rename_moved[OF Inr] have "?s = ?d \<or> \<not> prefix ?s ?d" .
    then have "lookup t ?p \<noteq> None"
    proof
      assume "?s = ?d"
      then have "t = fs w" using Inr by (auto simp: os_rename_def split: option.splits)
      then show ?thesis using p by simp
    next
      assume "\<not> prefix ?s ?d"
      from os_rename_keeps[OF Inr p moved[OF pd this]] show ?thesis .
    qed
    then show ?thesis
      using mv p Inr by (auto simp: shutil_move_def Let_def split: if_splits)
  next
    case (Inl y)
    show ?thesis
    proof (cases "move_fallback ?s ?d y (fs w)")
      case fail: (Inl z)
      then show ?thesis
        using mv p Inl by (auto simp: shutil_move_def Let_def split: if_splits)
    next
      case (Inr t)
      from move_fallback_keeps[OF Inr p moved[OF pd move_fallback_moved[OF Inr]]]
      show ?thesis
        using mv p Inl Inr by (auto simp: shutil_move_def Let_def split: if_splits)
    qed
  qed
qed

lemma shutil_move_creates:
  assumes mv: "shutil_move e (join TEMP_DIR name) (join TEMP_DIR (basename m @ CHR ''_'' # str_nat j)) w
                 = (Inr u, w1)"
    and name: "endswith name ''embedded.mobileprovision''"
  shows "path_exists e (join TEMP_DIR (basename m @ CHR ''_'' # str_nat j)) w1"
proof -
  let ?y = "basename m @ CHR ''_'' # str_nat j"
  let ?dst = "join TEMP_DIR ?y"
  let ?s = "resolve (cwd e) (join TEMP_DIR name)"
  have key: "resolve (cwd e) ?dst = cwd e @ [TEMP_DIR, ?y]"
    by (rule moved_key)
  have y: "last ?y \<noteq> CHR ''n''"
    using moved_name(5)[of m j] digit_not_special(3)[of j] by simp
  show ?thesis
  proof (cases "is_dir (fs w) (resolve (cwd e) ?dst)")
    case True
    then have "lookup (fs w) (cwd e @ [TEMP_DIR, ?y]) \<noteq> None"
      unfolding key by (auto simp: is_dir_def split: option.splits)
    from shutil_move_keeps[OF mv name this y] show ?thesis
      by (simp add: path_exists_def key)
  next
    case False
    let ?d = "resolve (cwd e) ?dst"
    show ?thesis
    proof (cases "os_rename ?s ?d (fs w)")
      case (Inr t)
      from os_rename_creates[OF Inr] show ?thesis
        using mv False Inr by (auto simp: shutil_move_def Let_def path_exists_def)
    next
      case (Inl x)
      show ?thesis
      proof (cases "move_fallback ?s ?d x (fs w)")
        case fail: (Inl z)
        then show ?thesis
          using mv False Inl by (auto simp: shutil_move_def Let_def)
      next
        case (Inr t)
        from move_fallback_creates[OF Inr] show ?thesis
          using mv False Inl Inr by (auto simp: shutil_move_def Let_def path_exists_def)
      qed
    qed
  qed
qed

lemma extract_members_keeps:
  assumes "extract_members e z names acc w = (r, w1)"
    and "lookup (fs w) (cwd e @ [TEMP_DIR, x]) \<noteq> None"
    and "last x \<noteq> CHR ''n''"
  shows "lookup (fs w1) (cwd e @ [TEMP_DIR, x]) \<noteq> None"
  using assms
proof (induction names arbitrary: acc w)
  case Nil
  then show ?case by simp
next
  case (Cons name rest)
  show ?case
  proof (cases "endswith name ''embedded.mobileprovision''")
    case False
    then show ?thesis using Cons by simp
  next
    case True
    let ?p = "join TEMP_DIR (basename name @ CHR ''_'' # str_nat (length acc))"
    obtain r1 w' where ze: "zip_extract e z name TEMP_DIR w = (r1, w')"
      by (cases "zip_extract e z name TEMP_DIR w")
    note kept1 = zip_extract_keeps[OF ze Cons(3)]
    show ?thesis
    proof (cases r1)
      case (Inl y)
      then show ?thesis using Cons(2) True ze kept1 by simp
    next
      case (Inr u)
      obtain r2 w'' where mv: "shutil_move e (join TEMP_DIR name) ?p w' = (r2, w'')"
        by (cases "shutil_move e (join TEMP_DIR name) ?p w'")
      note kept2 = shutil_move_keeps[OF mv True kept1 Cons(4)]
      show ?thesis
      proof (cases r2)
        case (Inl y)
        then show ?thesis using Cons(2) True ze Inr mv kept2 by simp
      next
        case moved: (Inr u2)
        from Cons(2) True ze Inr mv moved
        have "extract_members e z rest (acc @ [?p]) w'' = (r, w1)" by simp
        from Cons(1)[OF this kept2 Cons(4)] show ?thesis .
      qed
    qed
  qed
qed

lemma path_exists_moved:
  "path_exists e (join TEMP_DIR (basename m @ CHR ''_'' # str_nat j)) w \<longleftrightarrow>
   lookup (fs w) (cwd e @ [TEMP_DIR, basename m @ CHR ''_'' # str_nat j]) \<noteq> None"
  by (simp add: path_exists_def moved_key)

lemma moved_last: "last (basename m @ CHR ''_'' # str_nat j) \<noteq> CHR ''n''"
  using moved_name(5)[of m j] digit_not_special(3)[of j] by simp

lemma extract_members_paths_exist:
  assumes "extract_members e z names acc w = (Inr ps, w1)"
    and "\<forall>q\<in>set acc. path_exists e q w \<and>
           (\<exists>m j. q = join TEMP_DIR (basename m @ CHR ''_'' # str_nat j))"
  shows "\<forall>q\<in>set ps. path_exists e q w1 \<and>
           (\<exists>m j. q = join TEMP_DIR (basename m @ CHR ''_'' # str_nat j))"
  using assms
proof (induction names arbitrary: acc w)
  case Nil
  then show ?case by simp
next
  case (Cons name rest)
  show ?case
  proof (cases "endswith name ''embedded.mobileprovision''")
    case False
    then show ?thesis using Cons by simp
  next
    case True
    let ?p = "join TEMP_DIR (basename name @ CHR ''_'' # str_nat (length acc))"
    obtain r1 w' where ze: "zip_extract e z name TEMP_DIR w = (r1, w')"
      by (cases "zip_extract e z name TEMP_DIR w")
    obtain r2 w'' where mv: "shutil_move e (join TEMP_DIR name) ?p w' = (r2, w'')"
      by (cases "shutil_move e (join TEMP_DIR name) ?p w'")
    from Cons(2) True ze mv obtain u where
      r2: "r2 = Inr u" and
      rest: "extract_members e z rest (acc @ [?p]) w'' = (Inr ps, w1)"
      by (auto simp: Let_def split: sum.splits)
    have "\<forall>q\<in>set (acc @ [?p]). path_exists e q w'' \<and>
            (\<exists>m j. q = join TEMP_DIR (basename m @ CHR ''_'' # str_nat j))"
    proof
      fix q
      assume "q \<in> set (acc @ [?p])"
      then consider "q \<in> set acc" | "q = ?p" by auto
      then show "path_exists e q w'' \<and>
                 (\<exists>m j. q = join TEMP_DIR (basename m @ CHR ''_'' # str_nat j))"
      proof cases
        case 1
        with Cons(3) obtain m j where
          q: "q = join TEMP_DIR (basename m @ CHR ''_'' # str_nat j)" and
          ex: "path_exists e q w" by blast
        from ex have "lookup (fs w) (cwd e @ [TEMP_DIR, basename m @ CHR ''_'' # str_nat j]) \<noteq> None"
          unfolding q path_exists_moved .
        from shutil_move_keeps[OF mv True zip_extract_keeps[OF ze this] moved_last]
        show ?thesis unfolding q path_exists_moved by blast
      next
        case 2
        from shutil_move_creates[OF mv[unfolded r2] True] show ?thesis
          unfolding 2 by blast
      qed
    qed
    from Cons(1)[OF rest this] show ?thesis .
  qed
qed


















































section \<open>What the rest of the run leaves in place\<close>

lemma os_remove_keeps:
  assumes "os_remove e (fp @ ''.plist'') w = (r, w1)"
    and "lookup (fs w) (cwd e @ [TEMP_DIR, x]) \<noteq> None"
    and "last x \<noteq> CHR ''t''"
  shows "lookup (fs w1) (cwd e @ [TEMP_DIR, x]) \<noteq> None"
proof (cases "is_file (fs w) (resolve (cwd e) (fp @ ''.plist''))")
  case False
  then show ?thesis
    using assms by (auto simp: os_remove_def is_file_def split: option.splits node.splits)
next
  case True
  let ?k = "resolve (cwd e) (fp @ ''.plist'')"
  let ?p = "cwd e @ [TEMP_DIR, x]"
  have "\<exists>ks. ?k = ks @ [last (split_on CHR ''/'' fp) @ ''.plist'']"
    by (rule resolve_suffix) auto
  then obtain ks l where k: "?k = ks @ [l]" "last l = CHR ''t''" by auto
  have "\<not> prefix ?k ?p"
  proof
    assume "prefix ?k ?p"
    then obtain rest where rest: "?p = ?k @ rest" by (auto elim: prefixE)
    have "rest = []"
    proof (rule ccontr)
      assume "rest \<noteq> []"
      from lookup_below_is_dir[OF assms(2)[unfolded rest] this] True show False
        by (auto simp: is_dir_def is_file_def split: option.splits node.splits)
    qed
    with rest k(1) have "l = x" by (metis append_Nil2 append_assoc append_Cons append_Nil last_snoc)
    with k(2) assms(3) show False by simp
  qed
  from put_frame[OF this, of None "fs w"] assms(2) have "lookup (put ?k None (fs w)) ?p \<noteq> None"
    by simp
  then show ?thesis
    using assms(1) True by (auto simp: os_remove_def is_file_def split: option.splits node.splits)
qed

lemma check_expiry_keeps:
  assumes "keeps_entries e"
    and "check_expiry e fp w = (r, w1)"
    and "lookup (fs w) (cwd e @ [TEMP_DIR, x]) \<noteq> None"
    and "last x \<noteq> CHR ''t''"
  shows "lookup (fs w1) (cwd e @ [TEMP_DIR, x]) \<noteq> None"
proof -
  let ?tp = "fp @ ''.plist''"
  let ?p = "cwd e @ [TEMP_DIR, x]"
  obtain rd wd where dec: "decode_mobileprovision e fp ?tp w = (rd, wd)"
    by (cases "decode_mobileprovision e fp ?tp w")
  have wd: "lookup (fs wd) ?p \<noteq> None"
    using dec assms(1,3) unfolding keeps_entries_def decode_mobileprovision_def
    by (auto simp: print_def split: prod.splits run_outcome.splits if_splits
             dest!: spec[where x="[''security'', ''cms'', ''-D'', ''-i'', fp, ''-o'', ?tp]"])
       (metis snd_conv)+
  show ?thesis
  proof (cases rd)
    case (Inl y)
    then show ?thesis using assms(2) dec wd by (simp add: check_expiry_def)
  next
    case (Inr decoded)
    show ?thesis
    proof (cases decoded)
      case False
      then show ?thesis using assms(2) dec Inr wd by (auto simp: check_expiry_def print_def)
    next
      case True
      obtain rv w2 where rv: "read_verdict e fp ?tp wd = (rv, w2)"
        by (cases "read_verdict e fp ?tp wd")
      define w3 where "w3 = (case rv of Inl y \<Rightarrow> print (fp @ '': Error processing - '' @ str_exn y) w2
                              | Inr u \<Rightarrow> w2)"
      from read_verdict_effect[OF rv] wd have w3: "lookup (fs w3) ?p \<noteq> None"
        by (auto simp: w3_def print_def split: sum.splits)
      have fin: "check_expiry e fp w =
                   (if path_exists e ?tp w3 then os_remove e ?tp w3 else (Inr (), w3))"
        using dec Inr True rv by (simp add: check_expiry_def w3_def split: sum.splits)
      show ?thesis
      proof (cases "path_exists e ?tp w3")
        case False
        then show ?thesis using fin assms(2) w3 by simp
      next
        case exists: True
        with fin assms(2) have "os_remove e ?tp w3 = (r, w1)" by simp
        from os_remove_keeps[OF this w3 assms(4)] show ?thesis .
      qed
    qed
  qed
qed

lemma check_all_keeps:
  assumes "keeps_entries e"
    and "check_all e ps w = (r, w1)"
    and "lookup (fs w) (cwd e @ [TEMP_DIR, x]) \<noteq> None"
    and "last x \<noteq> CHR ''t''"
  shows "lookup (fs w1) (cwd e @ [TEMP_DIR, x]) \<noteq> None"
  using assms(2,3)
proof (induction ps arbitrary: w)
  case Nil
  then show ?case by simp
next
  case (Cons p ps)
  obtain r' w' where one: "check_expiry e p w = (r', w')"
    by (cases "check_expiry e p w")
  note kept = check_expiry_keeps[OF assms(1) one Cons(3) assms(4)]
  show ?case
  proof (cases r')
    case (Inl y)
    then show ?thesis using Cons(2) one kept by simp
  next
    case (Inr u)
    with Cons(2) one have "check_all e ps w' = (r, w1)" by simp
    from Cons(1)[OF this kept] show ?thesis .
  qed
qed

lemma extract_keeps:
  assumes "extract_mobileprovision_from_ipa e ipa w = (ps, w1)"
    and "lookup (fs w) (cwd e @ [TEMP_DIR, x]) \<noteq> None"
    and "last x \<noteq> CHR ''n''"
  shows "lookup (fs w1) (cwd e @ [TEMP_DIR, x]) \<noteq> None"
proof (cases "zip_open e ipa w")
  case (Inl y)
  then show ?thesis using assms by (auto simp: extract_mobileprovision_from_ipa_def print_def)
next
  case (Inr z)
  obtain r w' where em: "extract_members e z (map fst z) [] w = (r, w')"
    by (cases "extract_members e z (map fst z) [] w")
  from extract_members_keeps[OF em assms(2,3)] show ?thesis
    using assms(1) Inr em
    by (auto simp: extract_mobileprovision_from_ipa_def print_def split: sum.splits if_splits)
qed

lemma process_file_keeps:
  assumes "keeps_entries e"
    and "process_file e root filename w = (r, w1)"
    and "lookup (fs w) (cwd e @ [TEMP_DIR, x]) \<noteq> None"
    and "last x \<noteq> CHR ''n''" and "last x \<noteq> CHR ''t''"
  shows "lookup (fs w1) (cwd e @ [TEMP_DIR, x]) \<noteq> None"
proof (cases "endswith filename ''.mobileprovision''")
  case True
  with assms(2) have "check_expiry e (join root filename) w = (r, w1)"
    by (simp add: process_file_def)
  from check_expiry_keeps[OF assms(1) this assms(3,5)] show ?thesis .
next
  case False
  show ?thesis
  proof (cases "endswith filename ''.ipa''")
    case no: False
    then show ?thesis using assms False by (simp add: process_file_def)
  next
    case True
    obtain ps w' where ex: "extract_mobileprovision_from_ipa e (join root filename) w = (ps, w')"
      by (cases "extract_mobileprovision_from_ipa e (join root filename) w")
    with assms(2) False True have "check_all e ps w' = (r, w1)"
      by (simp add: process_file_def)
    from check_all_keeps[OF assms(1) this extract_keeps[OF ex assms(3,4)] assms(5)]
    show ?thesis .
  qed
qed

lemma process_files_keeps:
  assumes "keeps_entries e"
    and "process_files e root files w = (r, w1)"
    and "lookup (fs w) (cwd e @ [TEMP_DIR, x]) \<noteq> None"
    and "last x \<noteq> CHR ''n''" and "last x \<noteq> CHR ''t''"
  shows "lookup (fs w1) (cwd e @ [TEMP_DIR, x]) \<noteq> None"
  using assms(2,3)
proof (induction files arbitrary: w)
  case Nil
  then show ?case by simp
next
  case (Cons filename files)
  obtain r' w' where one: "process_file e root filename w = (r', w')"
    by (cases "process_file e root filename w")
  note kept = process_file_keeps[OF assms(1) one Cons(3) assms(4,5)]
  show ?case
  proof (cases r')
    case (Inl y)
    then show ?thesis using Cons(2) one kept by simp
  next
    case (Inr u)
    with Cons(2) one have "process_files e root files w' = (r, w1)" by simp
    from Cons(1)[OF this kept] show ?thesis .
  qed
qed

lemma process_roots_keeps:
  assumes "keeps_entries e"
    and "process_roots e walk w = (r, w1)"
    and "lookup (fs w) (cwd e @ [TEMP_DIR, x]) \<noteq> None"
    and "last x \<noteq> CHR ''n''" and "last x \<noteq> CHR ''t''"
  shows "lookup (fs w1) (cwd e @ [TEMP_DIR, x]) \<noteq> None"
  using assms(2,3)
proof (induction walk arbitrary: w)
  case Nil
  then show ?case by simp
next
  case (Cons entry walk)
  obtain root files where entry: "entry = (root, files)" by (cases entry)
  obtain r' w' where one: "process_files e root files w = (r', w')"
    by (cases "process_files e root files w")
  note kept = process_files_keeps[OF assms(1) one Cons(3) assms(4,5)]
  show ?case
  proof (cases r')
    case (Inl y)
    then show ?thesis using Cons(2) entry one kept by simp
  next
    case (Inr u)
    with Cons(2) entry one have "process_roots e walk w' = (r, w1)" by simp
    from Cons(1)[OF this kept] show ?thesis .
  qed
qed

lemma moved_last_t: "last (basename m @ CHR ''_'' # str_nat j) \<noteq> CHR ''t''"
proof -
  have "digit j \<in> set ''0123456789''"
    unfolding digit_def by (rule nth_mem) simp
  then have "digit j \<noteq> CHR ''t''" by auto
  then show ?thesis using moved_name(5)[of m j] by simp
qed

text \<open>
  C10. When an exception is raised in the loop of the extractor after one or more
  members have been extracted and moved, the extractor prints the error and returns
  the empty list; processing the archive ends there, in that state, so that no
  profile of the archive is checked; and the files already moved are still in the
  scratch directory, where (the external process removing nothing) they stay through
  whatever files and directories the run goes on to process.
\<close>

theorem interrupted_extraction_discards_paths:
  assumes "zip_open e ipa_path w = Inr ipa_zip"
    and "map fst ipa_zip = before @ rest"
    and "extract_members e ipa_zip before [] w = (Inr extracted_paths, w1)"
    and "extracted_paths \<noteq> []"
    and "extract_members e ipa_zip rest extracted_paths w1 = (Inl x, w2)"
  shows "extract_mobileprovision_from_ipa e ipa_path w =
           ([], print (ipa_path @ '': Error extracting - '' @ str_exn x) w2) \<and>
         (endswith filename ''.ipa'' \<and> \<not> endswith filename ''.mobileprovision'' \<and>
          join root filename = ipa_path \<longrightarrow>
            process_file e root filename w =
              (Inr (), print (ipa_path @ '': Error extracting - '' @ str_exn x) w2)) \<and>
         (\<forall>p\<in>set extracted_paths.
            path_exists e p (print (ipa_path @ '': Error extracting - '' @ str_exn x) w2)) \<and>
         (keeps_entries e \<longrightarrow>
            (\<forall>files r' w' walk r'' w''.
               process_files e root files
                 (print (ipa_path @ '': Error extracting - '' @ str_exn x) w2) = (r', w') \<and>
               process_roots e walk w' = (r'', w'') \<longrightarrow>
               (\<forall>p\<in>set extracted_paths. path_exists e p w' \<and> path_exists e p w'')))"
proof -
  let ?w = "print (ipa_path @ '': Error extracting - '' @ str_exn x) w2"
  have whole: "extract_members e ipa_zip (map fst ipa_zip) [] w = (Inl x, w2)"
    unfolding assms(2) extract_members_append using assms(3,5) by simp
  then have result: "extract_mobileprovision_from_ipa e ipa_path w = ([], ?w)"
    using assms(1) by (simp add: extract_mobileprovision_from_ipa_def)
  have form: "\<forall>q\<in>set extracted_paths. path_exists e q w1 \<and>
                (\<exists>m j. q = join TEMP_DIR (basename m @ CHR ''_'' # str_nat j))"
    using extract_members_paths_exist[OF assms(3)] by simp
  have stay: "path_exists e p ?w \<and>
              (keeps_entries e \<longrightarrow>
                (\<forall>files r' w' walk r'' w''.
                   process_files e root files ?w = (r', w') \<and> process_roots e walk w' = (r'', w'')
                   \<longrightarrow> path_exists e p w' \<and> path_exists e p w''))"
    if "p \<in> set extracted_paths" for p
  proof -
    from form that obtain m j where
      p: "p = join TEMP_DIR (basename m @ CHR ''_'' # str_nat j)" and
      at1: "path_exists e p w1" by blast
    let ?k = "cwd e @ [TEMP_DIR, basename m @ CHR ''_'' # str_nat j]"
    from at1 have "lookup (fs w1) ?k \<noteq> None" unfolding p path_exists_moved .
    from extract_members_keeps[OF assms(5) this moved_last]
    have at2: "lookup (fs ?w) ?k \<noteq> None" by (simp add: print_def)
    have "lookup (fs w') ?k \<noteq> None \<and> lookup (fs w'') ?k \<noteq> None"
      if "keeps_entries e" and "process_files e root files ?w = (r', w')"
        and "process_roots e walk w' = (r'', w'')" for files r' w' walk r'' w''
    proof -
      note a = process_files_keeps[OF that(1,2) at2 moved_last moved_last_t]
      note b = process_roots_keeps[OF that(1,3) a moved_last moved_last_t]
      from a b show ?thesis by simp
    qed
    with at2 show ?thesis unfolding p path_exists_moved by blast
  qed
  have proc: "process_file e root filename w = (Inr (), ?w)"
    if "endswith filename ''.ipa''" "\<not> endswith filename ''.mobileprovision''"
       "join root filename = ipa_path"
    using that result by (simp add: process_file_def)
  from result proc stay show ?thesis by blast
qed

end
